theory Spec2Isabelle
  imports Complex_Main
begin

section \<open>The speech formatter of combined\_server.py\<close>

text \<open>
  A Python \<open>str\<close> is modelled as a \<open>string\<close> whose characters are code points
  below 256. In that range the class \<open>\d\<close> of Python's \<open>re\<close> is exactly the ten
  ASCII digits. \<open>int\<close> of a non-empty run of digits is its decimal value, unless
  the run is longer than CPython's limit for the conversion of a string to an integer
  (the default of \<open>sys.int_info.default_max_str_digits\<close>, 4300 digits, leading
  zeros counted; the repository does not change it): then \<open>int\<close> raises
  \<open>ValueError\<close>. The formatter calls \<open>int\<close> on the groups of its patterns
  only, which are non-empty runs of digits.
\<close>

datatype conversion_error = ValueError

definition is_digit :: "char \<Rightarrow> bool" where
  "is_digit c \<longleftrightarrow> c \<in> set ''0123456789''"

definition digit_value :: "char \<Rightarrow> nat" where
  "digit_value c = of_char c - 48"

definition digits_value :: "string \<Rightarrow> nat" where
  "digits_value s = foldl (\<lambda>n c. 10 * n + digit_value c) 0 s"

definition int_max_str_digits :: nat where
  "int_max_str_digits = 4300"

definition py_int :: "string \<Rightarrow> conversion_error + nat" where
  "py_int s =
     (if length s > int_max_str_digits then Inl ValueError
      else Inr (digits_value s))"

subsection \<open>number\_to\_words\<close>

text \<open>
  The three tables of the source, indexed from 0. Every index the function uses is
  guarded by the enclosing comparison (\<open>num < 10\<close>, \<open>num - 10 < 10\<close>,
  \<open>num div 10 < 10\<close>), so no lookup is out of range.
\<close>

definition ones :: "string list" where
  "ones = [[], ''one'', ''two'', ''three'', ''four'', ''five'', ''six'', ''seven'', ''eight'', ''nine'']"

definition teens :: "string list" where
  "teens = [''ten'', ''eleven'', ''twelve'', ''thirteen'', ''fourteen'', ''fifteen'',
            ''sixteen'', ''seventeen'', ''eighteen'', ''nineteen'']"

definition tens :: "string list" where
  "tens = [[], [], ''twenty'', ''thirty'', ''forty'', ''fifty'', ''sixty'', ''seventy'', ''eighty'', ''ninety'']"

text \<open>
  The function raises what \<open>int(num_str)\<close> raises; nothing in it or in the
  formatter catches the exception.
\<close>

definition number_to_words :: "string \<Rightarrow> conversion_error + string" where
  "number_to_words num_str =
     (case py_int num_str of
        Inl e \<Rightarrow> Inl e
      | Inr num \<Rightarrow>
         Inr (if num = 0 then ''zero''
              else if num < 10 then ones ! num
              else if num < 20 then teens ! (num - 10)
              else if num < 100 then
                tens ! (num div 10) @ (if num mod 10 \<noteq> 0 then '' '' @ ones ! (num mod 10) else [])
              else if num < 1000 then
                (let hundreds = ones ! (num div 100) @ '' hundred'';
                     remainder = num mod 100 in
                 if remainder = 0 then hundreds
                 else if remainder < 10 then hundreds @ '' and '' @ ones ! remainder
                 else if remainder < 20 then hundreds @ '' and '' @ teens ! (remainder - 10)
                 else hundreds @ '' and '' @ tens ! (remainder div 10) @
                      (if remainder mod 10 \<noteq> 0 then '' '' @ ones ! (remainder mod 10) else []))
              else num_str))"

subsection \<open>The conversion as the specification words it\<close>

text \<open>
  A second definition, written from the specification's rules and not from the code:
  the ones word of a digit, the teens word of 10 to 19, the tens word of a tens digit,
  the rule for 1 to 99 and the rule for the hundreds.
\<close>

definition ones_word :: "nat \<Rightarrow> string" where
  "ones_word d =
     (if d = 1 then ''one'' else if d = 2 then ''two'' else if d = 3 then ''three''
      else if d = 4 then ''four'' else if d = 5 then ''five'' else if d = 6 then ''six''
      else if d = 7 then ''seven'' else if d = 8 then ''eight'' else if d = 9 then ''nine''
      else [])"

definition teens_word :: "nat \<Rightarrow> string" where
  "teens_word n =
     (if n = 10 then ''ten'' else if n = 11 then ''eleven'' else if n = 12 then ''twelve''
      else if n = 13 then ''thirteen'' else if n = 14 then ''fourteen''
      else if n = 15 then ''fifteen'' else if n = 16 then ''sixteen''
      else if n = 17 then ''seventeen'' else if n = 18 then ''eighteen''
      else if n = 19 then ''nineteen'' else [])"

definition tens_word :: "nat \<Rightarrow> string" where
  "tens_word t =
     (if t = 2 then ''twenty'' else if t = 3 then ''thirty'' else if t = 4 then ''forty''
      else if t = 5 then ''fifty'' else if t = 6 then ''sixty'' else if t = 7 then ''seventy''
      else if t = 8 then ''eighty'' else if t = 9 then ''ninety'' else [])"

definition words_below_100 :: "nat \<Rightarrow> string" where
  "words_below_100 n =
     (if n < 10 then ones_word n
      else if n < 20 then teens_word n
      else tens_word (n div 10) @ (if n mod 10 = 0 then [] else '' '' @ ones_word (n mod 10)))"

definition words_spec :: "nat \<Rightarrow> string" where
  "words_spec n =
     (if n = 0 then ''zero''
      else if n < 100 then words_below_100 n
      else ones_word (n div 100) @ '' hundred'' @
           (if n mod 100 = 0 then [] else '' and '' @ words_below_100 (n mod 100)))"

lemma below_ten_cases: "k < 10 \<Longrightarrow> k \<in> {0, 1, 2, 3, 4, 5, 6, 7, 8, 9::nat}"
  by auto

lemma ones_nth: "k < 10 \<Longrightarrow> ones ! k = ones_word k"
  by (drule below_ten_cases) (auto simp: ones_def ones_word_def)

lemma teens_nth: "k < 10 \<Longrightarrow> teens ! k = teens_word (k + 10)"
  by (drule below_ten_cases) (auto simp: teens_def teens_word_def)

lemma tens_nth: "2 \<le> k \<Longrightarrow> k < 10 \<Longrightarrow> tens ! k = tens_word k"
  by (drule below_ten_cases) (auto simp: tens_def tens_word_def)

lemma number_to_words_below_100:
  assumes "n < 100" "0 < n"
  shows "(if n < 10 then ones ! n
          else if n < 20 then teens ! (n - 10)
          else tens ! (n div 10) @ (if n mod 10 \<noteq> 0 then '' '' @ ones ! (n mod 10) else []))
         = words_below_100 n"
proof -
  have a: "n < 10 \<Longrightarrow> ones ! n = ones_word n" by (rule ones_nth)
  have b: "\<not> n < 10 \<Longrightarrow> n < 20 \<Longrightarrow> teens ! (n - 10) = teens_word n"
    using teens_nth [of "n - 10"] by simp
  have c: "\<not> n < 20 \<Longrightarrow> tens ! (n div 10) = tens_word (n div 10)"
    using assms by (intro tens_nth) auto
  have d: "ones ! (n mod 10) = ones_word (n mod 10)" by (rule ones_nth) simp
  show ?thesis using a b c d by (simp add: words_below_100_def)
qed

lemma number_to_words_raises:
  "length s > int_max_str_digits \<Longrightarrow> number_to_words s = Inl ValueError"
  by (simp add: number_to_words_def py_int_def)

lemma number_to_words_returns:
  assumes "length s \<le> int_max_str_digits"
  shows "\<exists>w. number_to_words s = Inr w"
  using assms by (simp add: number_to_words_def py_int_def)

lemma number_to_words_length:
  "number_to_words s = Inr w \<Longrightarrow> length s \<le> int_max_str_digits"
  by (rule ccontr) (simp add: number_to_words_raises)

lemma number_to_words_below_1000:
  assumes len: "length s \<le> int_max_str_digits" and le: "digits_value s \<le> 999"
  shows "number_to_words s = Inr (words_spec (digits_value s))"
proof -
  define n where "n = digits_value s"
  have n: "n \<le> 999" using le by (simp add: n_def)
  have p: "py_int s = Inr n" using len by (simp add: py_int_def n_def)
  show ?thesis
  proof (cases "n < 100")
    case True
    then show ?thesis
      using number_to_words_below_100 [of n]
      by (auto simp: number_to_words_def p words_spec_def n_def [symmetric] Let_def)
  next
    case False
    have h: "ones ! (n div 100) = ones_word (n div 100)"
      using n by (intro ones_nth) auto
    have r: "0 < n mod 100 \<Longrightarrow>
        (if n mod 100 < 10 then ones ! (n mod 100)
         else if n mod 100 < 20 then teens ! (n mod 100 - 10)
         else tens ! (n mod 100 div 10) @
              (if n mod 100 mod 10 \<noteq> 0 then '' '' @ ones ! (n mod 100 mod 10) else []))
        = words_below_100 (n mod 100)"
      by (rule number_to_words_below_100) auto
    show ?thesis
      using False n h r
      by (auto simp: number_to_words_def p words_spec_def n_def [symmetric] Let_def)
  qed
qed

lemma number_to_words_large:
  "length g \<le> int_max_str_digits \<Longrightarrow> 1000 \<le> digits_value g \<Longrightarrow> number_to_words g = Inr g"
  by (simp add: number_to_words_def py_int_def)

lemma number_to_words_result:
  assumes "number_to_words g = Inr w"
  shows "(digits_value g \<le> 999 \<and> w = words_spec (digits_value g)) \<or>
         (1000 \<le> digits_value g \<and> w = g)"
proof -
  have len: "length g \<le> int_max_str_digits" using assms by (rule number_to_words_length)
  show ?thesis
  proof (cases "digits_value g \<le> 999")
    case True
    then show ?thesis using assms number_to_words_below_1000 [OF len] by simp
  next
    case False
    then show ?thesis using assms number_to_words_large [OF len] by simp
  qed
qed

subsection \<open>Regular-expression matching\<close>

text \<open>
  The class \<open>\s\<close> of a Python \<open>str\<close> pattern is Unicode whitespace; below code
  point 256 these are the characters 9 to 13, 28 to 32, 133 and 160.
\<close>

definition is_space :: "char \<Rightarrow> bool" where
  "is_space c \<longleftrightarrow>
     of_char c \<in> {9, 10, 11, 12, 13, 28, 29, 30, 31, 32, 133, 160 :: nat}"

text \<open>
  Python's matcher backtracks. A greedy repetition \<open>p+\<close> first takes the longest
  run of characters of the class and hands the rest of the input to the remainder of
  the pattern (the continuation \<open>k\<close>, which also receives the text matched so far);
  when the remainder fails, the repetition gives back one character and tries again.
  \<open>re_star p acc s k\<close> is that loop with \<open>acc\<close> already matched. A literal
  matches itself, and an alternation of literals tries its branches from left to right.
\<close>

fun re_star :: "(char \<Rightarrow> bool) \<Rightarrow> string \<Rightarrow> string \<Rightarrow> (string \<Rightarrow> string \<Rightarrow> 'a option) \<Rightarrow> 'a option" where
  "re_star p acc [] k = k acc []"
| "re_star p acc (c # cs) k =
     (if p c then
        (case re_star p (acc @ [c]) cs k of
           Some r \<Rightarrow> Some r
         | None \<Rightarrow> k acc (c # cs))
      else k acc (c # cs))"

definition re_plus :: "(char \<Rightarrow> bool) \<Rightarrow> string \<Rightarrow> (string \<Rightarrow> string \<Rightarrow> 'a option) \<Rightarrow> 'a option" where
  "re_plus p s k = (case s of [] \<Rightarrow> None | c # cs \<Rightarrow> if p c then re_star p [c] cs k else None)"

definition re_lit :: "string \<Rightarrow> string \<Rightarrow> (string \<Rightarrow> 'a option) \<Rightarrow> 'a option" where
  "re_lit w s k = (if take (length w) s = w then k (drop (length w) s) else None)"

fun re_alt :: "string list \<Rightarrow> string \<Rightarrow> (string \<Rightarrow> string \<Rightarrow> 'a option) \<Rightarrow> 'a option" where
  "re_alt [] s k = None"
| "re_alt (w # ws) s k =
     (case re_lit w s (k w) of
        Some r \<Rightarrow> Some r
      | None \<Rightarrow> re_alt ws s k)"

text \<open>
  The three patterns of \<open>format_numbers_for_speech\<close>, tried at the start of a
  string: \<open>(\d+)-(\d+)%\<close>, \<open>(\d+)-(\d+)\s+(weeks|days|months|hours)\<close> and
  \<open>(\d+)%\<close>. A match returns its groups and the input after the match.
\<close>

definition match_percent_range :: "string \<Rightarrow> (string \<times> string \<times> string) option" where
  "match_percent_range s =
     re_plus is_digit s (\<lambda>g1 s1.
       re_lit ''-'' s1 (\<lambda>s2.
         re_plus is_digit s2 (\<lambda>g2 s3.
           re_lit ''%'' s3 (\<lambda>rest. Some (g1, g2, rest)))))"

definition match_number_range :: "string \<Rightarrow> (string \<times> string \<times> string \<times> string) option" where
  "match_number_range s =
     re_plus is_digit s (\<lambda>g1 s1.
       re_lit ''-'' s1 (\<lambda>s2.
         re_plus is_digit s2 (\<lambda>g2 s3.
           re_plus is_space s3 (\<lambda>ws s4.
             re_alt [''weeks'', ''days'', ''months'', ''hours''] s4 (\<lambda>g3 rest.
               Some (g1, g2, g3, rest))))))"

definition match_single_percent :: "string \<Rightarrow> (string \<times> string) option" where
  "match_single_percent s =
     re_plus is_digit s (\<lambda>g1 s1.
       re_lit ''%'' s1 (\<lambda>rest. Some (g1, rest)))"

text \<open>
  The three replacement functions; the source reads the groups from the match object.
  Each converts its numbers in the order of the source and raises what
  \<open>number_to_words\<close> raises.
\<close>

definition replace_percent_range :: "string \<Rightarrow> string \<Rightarrow> conversion_error + string" where
  "replace_percent_range start end' =
     (case number_to_words start of
        Inl e \<Rightarrow> Inl e
      | Inr start_words \<Rightarrow>
         (case number_to_words end' of
            Inl e \<Rightarrow> Inl e
          | Inr end_words \<Rightarrow> Inr (start_words @ '' to '' @ end_words @ '' percent'')))"

definition replace_number_range :: "string \<Rightarrow> string \<Rightarrow> string \<Rightarrow> conversion_error + string" where
  "replace_number_range start end' unit =
     (case number_to_words start of
        Inl e \<Rightarrow> Inl e
      | Inr start_words \<Rightarrow>
         (case number_to_words end' of
            Inl e \<Rightarrow> Inl e
          | Inr end_words \<Rightarrow> Inr (start_words @ '' to '' @ end_words @ '' '' @ unit)))"

definition replace_single_percent :: "string \<Rightarrow> conversion_error + string" where
  "replace_single_percent num =
     (case number_to_words num of
        Inl e \<Rightarrow> Inl e
      | Inr num_words \<Rightarrow> Inr (num_words @ '' percent''))"

subsection \<open>Properties of the matcher\<close>

lemma re_star_greedy:
  assumes "\<And>acc' c r. p c \<Longrightarrow> k acc' (c # r) = None"
  shows "re_star p acc s k = k (acc @ takeWhile p s) (dropWhile p s)"
proof (induction s arbitrary: acc)
  case Nil
  show ?case by simp
next
  case (Cons c cs)
  show ?case
  proof (cases "p c")
    case True
    then show ?thesis
      using Cons [of "acc @ [c]"] assms [of c acc cs]
      by (simp split: option.split)
  next
    case False
    then show ?thesis by simp
  qed
qed

lemma re_plus_greedy:
  assumes "\<And>acc' c r. p c \<Longrightarrow> k acc' (c # r) = None"
  shows "re_plus p s k =
           (if takeWhile p s = [] then None else k (takeWhile p s) (dropWhile p s))"
  using re_star_greedy [of p k, OF assms]
  by (cases s) (simp_all add: re_plus_def)

lemma re_lit_Cons: "re_lit (x # w) s k = (case s of [] \<Rightarrow> None | c # cs \<Rightarrow> if c = x then re_lit w cs k else None)"
  by (cases s) (auto simp: re_lit_def)

lemma re_lit_Nil: "re_lit [] s k = k s"
  by (simp add: re_lit_def)

lemma digit_not_dash: "is_digit c \<Longrightarrow> c \<noteq> CHR ''-''"
  by (auto simp: is_digit_def)

lemma digit_not_percent: "is_digit c \<Longrightarrow> c \<noteq> CHR ''%''"
  by (auto simp: is_digit_def)

lemma re_star_sound:
  "re_star p acc s k = Some r \<Longrightarrow>
     \<exists>g rest. list_all p g \<and> s = g @ rest \<and> k (acc @ g) rest = Some r"
proof (induction s arbitrary: acc)
  case Nil
  then show ?case by simp
next
  case (Cons c cs)
  show ?case
  proof (cases "p c \<and> re_star p (acc @ [c]) cs k \<noteq> None")
    case True
    then have "re_star p (acc @ [c]) cs k = Some r"
      using Cons.prems by auto
    from Cons.IH [OF this] obtain g rest
      where "list_all p g" "cs = g @ rest" "k ((acc @ [c]) @ g) rest = Some r" by blast
    then have "list_all p (c # g) \<and> c # cs = (c # g) @ rest \<and> k (acc @ c # g) rest = Some r"
      using True by simp
    then show ?thesis by blast
  next
    case False
    then have "k acc (c # cs) = Some r"
      using Cons.prems by (auto split: if_splits option.splits)
    then have "list_all p [] \<and> c # cs = [] @ c # cs \<and> k (acc @ []) (c # cs) = Some r"
      by simp
    then show ?thesis by blast
  qed
qed

lemma re_plus_sound:
  assumes "re_plus p s k = Some r"
  shows "\<exists>g rest. g \<noteq> [] \<and> list_all p g \<and> s = g @ rest \<and> k g rest = Some r"
proof (cases s)
  case Nil
  then show ?thesis using assms by (simp add: re_plus_def)
next
  case (Cons c cs)
  then have pc: "p c" and st: "re_star p [c] cs k = Some r"
    using assms by (auto simp: re_plus_def split: if_splits)
  from re_star_sound [OF st] obtain g rest
    where "list_all p g" "cs = g @ rest" "k ([c] @ g) rest = Some r" by blast
  then have "c # g \<noteq> [] \<and> list_all p (c # g) \<and> s = (c # g) @ rest \<and> k (c # g) rest = Some r"
    using pc Cons by simp
  then show ?thesis by blast
qed

lemma re_lit_sound:
  "re_lit w s k = Some r \<Longrightarrow> \<exists>rest. s = w @ rest \<and> k rest = Some r"
  by (auto simp: re_lit_def split: if_splits) (metis append_take_drop_id)

lemma re_alt_sound:
  "re_alt ws s k = Some r \<Longrightarrow> \<exists>w rest. w \<in> set ws \<and> s = w @ rest \<and> k w rest = Some r"
proof (induction ws)
  case Nil
  then show ?case by simp
next
  case (Cons w ws)
  show ?case
  proof (cases "re_lit w s (k w)")
    case None
    then show ?thesis using Cons by auto
  next
    case (Some r')
    then have "re_lit w s (k w) = Some r" using Cons.prems by simp
    from re_lit_sound [OF this] show ?thesis by auto
  qed
qed

lemma dropWhile_run: "list_all p g \<Longrightarrow> \<not> p x \<Longrightarrow> dropWhile p (g @ x # r) = x # r"
  by (induction g) auto

lemma takeWhile_run: "list_all p g \<Longrightarrow> \<not> p x \<Longrightarrow> takeWhile p (g @ x # r) = g"
  by (induction g) auto

lemma match_single_percent_sound:
  assumes "match_single_percent s = Some (g, rest)"
  shows "g \<noteq> [] \<and> list_all is_digit g \<and> s = g @ CHR ''%'' # rest"
proof -
  from re_plus_sound [OF assms [unfolded match_single_percent_def]] obtain g1 s1
    where g1: "g1 \<noteq> []" "list_all is_digit g1" "s = g1 @ s1"
      and k: "re_lit ''%'' s1 (\<lambda>rest. Some (g1, rest)) = Some (g, rest)" by blast
  from re_lit_sound [OF k] have "s1 = ''%'' @ rest" "g1 = g" by auto
  with g1 show ?thesis by simp
qed

lemma match_percent_range_sound:
  assumes "match_percent_range s = Some (a, b, rest)"
  shows "a \<noteq> [] \<and> list_all is_digit a \<and> b \<noteq> [] \<and> list_all is_digit b \<and>
         s = a @ CHR ''-'' # b @ CHR ''%'' # rest"
proof -
  from re_plus_sound [OF assms [unfolded match_percent_range_def]] obtain g1 s1
    where g1: "g1 \<noteq> []" "list_all is_digit g1" "s = g1 @ s1"
      and k1: "re_lit ''-'' s1 (\<lambda>s2. re_plus is_digit s2 (\<lambda>g2 s3.
                 re_lit ''%'' s3 (\<lambda>rest. Some (g1, g2, rest)))) = Some (a, b, rest)" by blast
  from re_lit_sound [OF k1] obtain s2 where s2: "s1 = ''-'' @ s2"
      and k2: "re_plus is_digit s2 (\<lambda>g2 s3.
                 re_lit ''%'' s3 (\<lambda>rest. Some (g1, g2, rest))) = Some (a, b, rest)" by blast
  from re_plus_sound [OF k2] obtain g2 s3
    where g2: "g2 \<noteq> []" "list_all is_digit g2" "s2 = g2 @ s3"
      and k3: "re_lit ''%'' s3 (\<lambda>rest. Some (g1, g2, rest)) = Some (a, b, rest)" by blast
  from re_lit_sound [OF k3] have "s3 = ''%'' @ rest" "g1 = a" "g2 = b" by auto
  with g1 g2 s2 show ?thesis by simp
qed

lemma match_number_range_sound:
  assumes "match_number_range s = Some (a, b, u, rest)"
  shows "a \<noteq> [] \<and> list_all is_digit a \<and> b \<noteq> [] \<and> list_all is_digit b \<and>
         u \<in> set [''weeks'', ''days'', ''months'', ''hours''] \<and>
         (\<exists>ws. ws \<noteq> [] \<and> list_all is_space ws \<and> s = a @ CHR ''-'' # b @ ws @ u @ rest)"
proof -
  from re_plus_sound [OF assms [unfolded match_number_range_def]] obtain g1 s1
    where g1: "g1 \<noteq> []" "list_all is_digit g1" "s = g1 @ s1"
      and k1: "re_lit ''-'' s1 (\<lambda>s2. re_plus is_digit s2 (\<lambda>g2 s3.
                 re_plus is_space s3 (\<lambda>ws s4.
                   re_alt [''weeks'', ''days'', ''months'', ''hours''] s4 (\<lambda>g3 rest.
                     Some (g1, g2, g3, rest))))) = Some (a, b, u, rest)" by blast
  from re_lit_sound [OF k1] obtain s2 where s2: "s1 = ''-'' @ s2"
      and k2: "re_plus is_digit s2 (\<lambda>g2 s3.
                 re_plus is_space s3 (\<lambda>ws s4.
                   re_alt [''weeks'', ''days'', ''months'', ''hours''] s4 (\<lambda>g3 rest.
                     Some (g1, g2, g3, rest)))) = Some (a, b, u, rest)" by blast
  from re_plus_sound [OF k2] obtain g2 s3
    where g2: "g2 \<noteq> []" "list_all is_digit g2" "s2 = g2 @ s3"
      and k3: "re_plus is_space s3 (\<lambda>ws s4.
                   re_alt [''weeks'', ''days'', ''months'', ''hours''] s4 (\<lambda>g3 rest.
                     Some (g1, g2, g3, rest))) = Some (a, b, u, rest)" by blast
  from re_plus_sound [OF k3] obtain ws s4
    where ws: "ws \<noteq> []" "list_all is_space ws" "s3 = ws @ s4"
      and k4: "re_alt [''weeks'', ''days'', ''months'', ''hours''] s4 (\<lambda>g3 rest.
                     Some (g1, g2, g3, rest)) = Some (a, b, u, rest)" by blast
  from re_alt_sound [OF k4] obtain w rest'
    where w: "w \<in> set [''weeks'', ''days'', ''months'', ''hours'']" "s4 = w @ rest'"
      and e: "Some (g1, g2, w, rest') = Some (a, b, u, rest)" by blast
  from e have eq: "g1 = a" "g2 = b" "w = u" "rest' = rest" by auto
  have "s = a @ CHR ''-'' # b @ ws @ u @ rest"
    using g1(3) s2 g2(3) ws(3) w(2) eq by simp
  then show ?thesis using g1 g2 ws w eq by blast
qed

lemma re_lit_single:
  "re_lit [x] s k = (case s of [] \<Rightarrow> None | c # cs \<Rightarrow> if c = x then k cs else None)"
  by (cases s) (simp_all add: re_lit_def)

lemma re_lit_hit: "re_lit [x] (x # cs) k = k cs"
  by (simp add: re_lit_def)

lemma match_single_percent_eq:
  "match_single_percent s =
     (if takeWhile is_digit s = [] then None
      else case dropWhile is_digit s of
             [] \<Rightarrow> None
           | c # rest \<Rightarrow> if c = CHR ''%'' then Some (takeWhile is_digit s, rest) else None)"
proof -
  have h: "re_plus is_digit s (\<lambda>g1 s1. re_lit ''%'' s1 (\<lambda>rest. Some (g1, rest))) =
        (if takeWhile is_digit s = [] then None
         else re_lit ''%'' (dropWhile is_digit s) (\<lambda>rest. Some (takeWhile is_digit s, rest)))"
    by (rule re_plus_greedy) (simp add: re_lit_Cons digit_not_percent)
  show ?thesis
    unfolding match_single_percent_def h
    by (simp only: re_lit_single)
qed

lemma match_single_percent_run:
  assumes "g \<noteq> []" "list_all is_digit g"
  shows "match_single_percent (g @ CHR ''%'' # rest) = Some (g, rest)"
proof -
  have np: "\<not> is_digit CHR ''%''" by (simp add: is_digit_def)
  show ?thesis
    using assms np by (simp add: match_single_percent_eq takeWhile_run dropWhile_run)
qed

lemma match_percent_range_run:
  assumes "a \<noteq> []" "list_all is_digit a" "b \<noteq> []" "list_all is_digit b"
  shows "match_percent_range (a @ CHR ''-'' # b @ CHR ''%'' # rest) = Some (a, b, rest)"
proof -
  have np: "\<not> is_digit CHR ''%''" and nd: "\<not> is_digit CHR ''-''" by (simp_all add: is_digit_def)
  have inner: "re_plus is_digit s2 (\<lambda>g2 s3. re_lit ''%'' s3 (\<lambda>rest. Some (g1, g2, rest))) =
        (if takeWhile is_digit s2 = [] then None
         else re_lit ''%'' (dropWhile is_digit s2) (\<lambda>rest. Some (g1, takeWhile is_digit s2, rest)))"
    for g1 s2
    by (rule re_plus_greedy) (simp add: re_lit_Cons digit_not_percent)
  have outer: "match_percent_range s =
        (if takeWhile is_digit s = [] then None
         else re_lit ''-'' (dropWhile is_digit s) (\<lambda>s2. re_plus is_digit s2 (\<lambda>g2 s3.
                re_lit ''%'' s3 (\<lambda>rest. Some (takeWhile is_digit s, g2, rest)))))" for s
    unfolding match_percent_range_def
    by (rule re_plus_greedy) (simp add: re_lit_Cons digit_not_dash)
  show ?thesis
    using assms np nd
    by (simp add: outer inner re_lit_hit takeWhile_run dropWhile_run)
qed

lemma digit_not_space: "is_digit c \<Longrightarrow> \<not> is_space c"
  by (auto simp: is_digit_def is_space_def)

lemma re_plus_miss: "\<not> p c \<Longrightarrow> re_plus p (c # r) k = None"
  by (simp add: re_plus_def)

lemma re_lit_Cons_Cons: "re_lit (x # w) (c # r) k = (if c = x then re_lit w r k else None)"
  by (simp add: re_lit_Cons)

lemma unit_letter_not_space: "c \<in> set ''wdmh'' \<Longrightarrow> \<not> is_space c \<and> \<not> is_digit c"
  by (auto simp: is_space_def is_digit_def)

lemma re_alt_units_space:
  assumes "is_space c"
  shows "re_alt [''weeks'', ''days'', ''months'', ''hours''] (c # r) k = None"
proof -
  have "c \<noteq> CHR ''w''" "c \<noteq> CHR ''d''" "c \<noteq> CHR ''m''" "c \<noteq> CHR ''h''"
    using assms unit_letter_not_space [of c] by auto
  then show ?thesis by (simp add: re_lit_Cons_Cons)
qed

lemma re_alt_units_hit:
  assumes "u \<in> set [''weeks'', ''days'', ''months'', ''hours'']"
  shows "re_alt [''weeks'', ''days'', ''months'', ''hours''] (u @ post)
           (\<lambda>g3 rest. Some (a, b, g3, rest)) = Some (a, b, u, post)"
proof -
  from assms consider "u = ''weeks''" | "u = ''days''" | "u = ''months''" | "u = ''hours''"
    by auto
  then show ?thesis
    by cases (simp_all add: re_lit_Cons_Cons re_lit_Nil)
qed

lemma unit_not_space:
  assumes "u \<in> set [''weeks'', ''days'', ''months'', ''hours'']"
  shows "\<exists>y u'. u = y # u' \<and> \<not> is_space y \<and> \<not> is_digit y"
proof -
  from assms obtain y u' where u: "u = y # u'" "y \<in> set ''wdmh''" by auto
  then show ?thesis using unit_letter_not_space [of y] by blast
qed

lemma match_number_range_run:
  assumes "a \<noteq> []" "list_all is_digit a" "b \<noteq> []" "list_all is_digit b"
    and "ws \<noteq> []" "list_all is_space ws"
    and "u \<in> set [''weeks'', ''days'', ''months'', ''hours'']"
  shows "match_number_range (a @ CHR ''-'' # b @ ws @ u @ post) = Some (a, b, u, post)"
proof -
  have nd: "\<not> is_digit CHR ''-''" by (simp add: is_digit_def)
  obtain x ws' where ws: "ws = x # ws'" using assms(5) by (cases ws) auto
  have x: "\<not> is_digit x" using assms(6) ws digit_not_space by auto
  obtain y u' where u: "u = y # u'" "\<not> is_space y"
    using unit_not_space [OF assms(7)] by blast
  have l3: "re_plus is_space s3 (\<lambda>ws s4.
        re_alt [''weeks'', ''days'', ''months'', ''hours''] s4 (\<lambda>g3 rest. Some (g1, g2, g3, rest))) =
      (if takeWhile is_space s3 = [] then None
       else re_alt [''weeks'', ''days'', ''months'', ''hours''] (dropWhile is_space s3)
              (\<lambda>g3 rest. Some (g1, g2, g3, rest)))" for g1 g2 s3
    by (rule re_plus_greedy) (rule re_alt_units_space)
  have l2: "re_plus is_digit s2 (\<lambda>g2 s3. re_plus is_space s3 (\<lambda>ws s4.
        re_alt [''weeks'', ''days'', ''months'', ''hours''] s4 (\<lambda>g3 rest. Some (g1, g2, g3, rest)))) =
      (if takeWhile is_digit s2 = [] then None
       else re_plus is_space (dropWhile is_digit s2) (\<lambda>ws s4.
        re_alt [''weeks'', ''days'', ''months'', ''hours''] s4
          (\<lambda>g3 rest. Some (g1, takeWhile is_digit s2, g3, rest))))" for g1 s2
    by (rule re_plus_greedy) (simp add: re_plus_miss digit_not_space)
  have l1: "match_number_range s =
      (if takeWhile is_digit s = [] then None
       else re_lit ''-'' (dropWhile is_digit s) (\<lambda>s2. re_plus is_digit s2 (\<lambda>g2 s3.
              re_plus is_space s3 (\<lambda>ws s4.
                re_alt [''weeks'', ''days'', ''months'', ''hours''] s4
                  (\<lambda>g3 rest. Some (takeWhile is_digit s, g2, g3, rest))))))" for s
    unfolding match_number_range_def
    by (rule re_plus_greedy) (simp add: re_lit_Cons digit_not_dash)
  have t1: "takeWhile is_digit (a @ CHR ''-'' # b @ ws @ u @ post) = a"
    "dropWhile is_digit (a @ CHR ''-'' # b @ ws @ u @ post) = CHR ''-'' # b @ ws @ u @ post"
    using assms(2) nd by (simp_all add: takeWhile_run dropWhile_run)
  have t2: "takeWhile is_digit (b @ ws @ u @ post) = b"
    "dropWhile is_digit (b @ ws @ u @ post) = ws @ u @ post"
    using assms(4) x takeWhile_run [of is_digit b x "ws' @ u @ post"]
      dropWhile_run [of is_digit b x "ws' @ u @ post"]
    by (simp_all add: ws)
  have t3: "takeWhile is_space (ws @ u @ post) = ws"
    "dropWhile is_space (ws @ u @ post) = u @ post"
    using assms(6) u takeWhile_run [of is_space ws y "u' @ post"]
      dropWhile_run [of is_space ws y "u' @ post"]
    by simp_all
  have "match_number_range (a @ CHR ''-'' # b @ ws @ u @ post) =
      re_plus is_digit (b @ ws @ u @ post) (\<lambda>g2 s3. re_plus is_space s3 (\<lambda>ws s4.
        re_alt [''weeks'', ''days'', ''months'', ''hours''] s4 (\<lambda>g3 rest. Some (a, g2, g3, rest))))"
    by (simp only: l1 t1 re_lit_hit assms(1) if_False)
  also have "\<dots> = re_plus is_space (ws @ u @ post) (\<lambda>ws s4.
        re_alt [''weeks'', ''days'', ''months'', ''hours''] s4 (\<lambda>g3 rest. Some (a, b, g3, rest)))"
    by (simp only: l2 t2 assms(3) if_False)
  also have "\<dots> = re_alt [''weeks'', ''days'', ''months'', ''hours''] (u @ post)
        (\<lambda>g3 rest. Some (a, b, g3, rest))"
    by (simp only: l3 t3 assms(5) if_False)
  also have "\<dots> = Some (a, b, u, post)"
    by (rule re_alt_units_hit [OF assms(7)])
  finally show ?thesis .
qed

subsection \<open>re.sub and format\_numbers\_for\_speech\<close>

text \<open>
  \<open>re.sub\<close> scans the text from the left. Where the pattern matches, the replacement
  function is called, its result stands for the match and the scan goes on after the
  match; elsewhere the character is copied and the scan moves one character on. An
  exception of the replacement function ends the call. None of the three patterns
  matches the empty string, so every match consumes input. \<open>prepend r x\<close> puts
  \<open>r\<close> before the text that the rest of the scan returns.
\<close>

definition prepend :: "string \<Rightarrow> conversion_error + string \<Rightarrow> conversion_error + string" where
  "prepend r x = (case x of Inl e \<Rightarrow> Inl e | Inr t \<Rightarrow> Inr (r @ t))"

lemma match_percent_range_shorter:
  "match_percent_range s = Some (a, b, rest) \<Longrightarrow> length rest < length s"
  by (drule match_percent_range_sound) auto

lemma match_number_range_shorter:
  "match_number_range s = Some (a, b, u, rest) \<Longrightarrow> length rest < length s"
  by (drule match_number_range_sound) auto

lemma match_single_percent_shorter:
  "match_single_percent s = Some (g, rest) \<Longrightarrow> length rest < length s"
  by (drule match_single_percent_sound) auto

function sub_percent_range :: "string \<Rightarrow> conversion_error + string" where
  "sub_percent_range [] = Inr []"
| "sub_percent_range (c # cs) =
     (case match_percent_range (c # cs) of
        Some (g1, g2, rest) \<Rightarrow>
          (case replace_percent_range g1 g2 of
             Inl e \<Rightarrow> Inl e
           | Inr r \<Rightarrow> prepend r (sub_percent_range rest))
      | None \<Rightarrow> prepend [c] (sub_percent_range cs))"
  by pat_completeness auto
termination
  by (relation "measure length") (auto dest: match_percent_range_shorter)

function sub_number_range :: "string \<Rightarrow> conversion_error + string" where
  "sub_number_range [] = Inr []"
| "sub_number_range (c # cs) =
     (case match_number_range (c # cs) of
        Some (g1, g2, g3, rest) \<Rightarrow>
          (case replace_number_range g1 g2 g3 of
             Inl e \<Rightarrow> Inl e
           | Inr r \<Rightarrow> prepend r (sub_number_range rest))
      | None \<Rightarrow> prepend [c] (sub_number_range cs))"
  by pat_completeness auto
termination
  by (relation "measure length") (auto dest: match_number_range_shorter)

function sub_single_percent :: "string \<Rightarrow> conversion_error + string" where
  "sub_single_percent [] = Inr []"
| "sub_single_percent (c # cs) =
     (case match_single_percent (c # cs) of
        Some (g1, rest) \<Rightarrow>
          (case replace_single_percent g1 of
             Inl e \<Rightarrow> Inl e
           | Inr r \<Rightarrow> prepend r (sub_single_percent rest))
      | None \<Rightarrow> prepend [c] (sub_single_percent cs))"
  by pat_completeness auto
termination
  by (relation "measure length") (auto dest: match_single_percent_shorter)

text \<open>The three passes in the order of the source, each on the text the one before returned.\<close>

definition format_numbers_for_speech :: "string \<Rightarrow> conversion_error + string" where
  "format_numbers_for_speech text =
     (case sub_percent_range text of
        Inl e \<Rightarrow> Inl e
      | Inr text1 \<Rightarrow>
         (case sub_number_range text1 of
            Inl e \<Rightarrow> Inl e
          | Inr text2 \<Rightarrow> sub_single_percent text2))"

subsection \<open>What number\_to\_words returns\<close>

definition plain :: "string \<Rightarrow> bool" where
  "plain w \<longleftrightarrow> CHR ''-'' \<notin> set w \<and> CHR ''%'' \<notin> set w"

lemma plain_append: "plain (u @ v) \<longleftrightarrow> plain u \<and> plain v"
  by (auto simp: plain_def)

lemma plain_digits: "list_all is_digit g \<Longrightarrow> plain g"
  by (auto simp: plain_def list_all_iff dest: digit_not_dash digit_not_percent)

lemma plain_ones_word: "plain (ones_word d)"
  by (simp add: ones_word_def plain_def)

lemma plain_teens_word: "plain (teens_word n)"
  by (simp add: teens_word_def plain_def)

lemma plain_tens_word: "plain (tens_word t)"
  by (simp add: tens_word_def plain_def)

lemma plain_words_below_100: "plain (words_below_100 n)"
  using plain_ones_word [of n] plain_ones_word [of "n mod 10"] plain_teens_word [of n]
    plain_tens_word [of "n div 10"]
  by (simp add: words_below_100_def plain_def)

lemma plain_words_spec: "plain (words_spec n)"
  using plain_ones_word [of "n div 100"] plain_words_below_100 [of n]
    plain_words_below_100 [of "n mod 100"]
  by (simp add: words_spec_def plain_def)

lemma number_to_words_plain:
  assumes "list_all is_digit g" "number_to_words g = Inr w"
  shows "plain w"
  using number_to_words_result [OF assms(2)] assms(1)
  by (auto simp: plain_words_spec plain_digits)

lemma ones_word_nonempty: "0 < d \<Longrightarrow> d < 10 \<Longrightarrow> ones_word d \<noteq> []"
  by (simp add: ones_word_def)

lemma teens_word_nonempty: "10 \<le> n \<Longrightarrow> n < 20 \<Longrightarrow> teens_word n \<noteq> []"
  by (simp add: teens_word_def) arith

lemma tens_word_nonempty: "2 \<le> t \<Longrightarrow> t < 10 \<Longrightarrow> tens_word t \<noteq> []"
  by (simp add: tens_word_def)

lemma words_below_100_nonempty:
  assumes "0 < n" "n < 100"
  shows "words_below_100 n \<noteq> []"
proof -
  have "\<not> n < 20 \<Longrightarrow> tens_word (n div 10) \<noteq> []"
    using assms by (intro tens_word_nonempty) auto
  then show ?thesis
    using assms by (auto simp: words_below_100_def ones_word_nonempty teens_word_nonempty)
qed

lemma words_spec_nonempty: "n \<le> 999 \<Longrightarrow> words_spec n \<noteq> []"
  using words_below_100_nonempty [of n] by (auto simp: words_spec_def)

lemma number_to_words_nonempty:
  assumes "g \<noteq> []" "number_to_words g = Inr w"
  shows "w \<noteq> []"
  using number_to_words_result [OF assms(2)] assms(1)
    words_spec_nonempty [of "digits_value g"]
  by auto

lemma replace_percent_range_returns:
  "number_to_words a = Inr wa \<Longrightarrow> number_to_words b = Inr wb \<Longrightarrow>
     replace_percent_range a b = Inr (wa @ '' to '' @ wb @ '' percent'')"
  by (simp add: replace_percent_range_def)

lemma replace_number_range_returns:
  "number_to_words a = Inr wa \<Longrightarrow> number_to_words b = Inr wb \<Longrightarrow>
     replace_number_range a b u = Inr (wa @ '' to '' @ wb @ '' '' @ u)"
  by (simp add: replace_number_range_def)

lemma replace_single_percent_returns:
  "number_to_words g = Inr w \<Longrightarrow> replace_single_percent g = Inr (w @ '' percent'')"
  by (simp add: replace_single_percent_def)

lemma replace_percent_range_result:
  "replace_percent_range a b = Inr r \<Longrightarrow>
     \<exists>wa wb. number_to_words a = Inr wa \<and> number_to_words b = Inr wb \<and>
       r = wa @ '' to '' @ wb @ '' percent''"
  by (auto simp: replace_percent_range_def split: sum.splits)

lemma replace_number_range_result:
  "replace_number_range a b u = Inr r \<Longrightarrow>
     \<exists>wa wb. number_to_words a = Inr wa \<and> number_to_words b = Inr wb \<and>
       r = wa @ '' to '' @ wb @ '' '' @ u"
  by (auto simp: replace_number_range_def split: sum.splits)

lemma replace_single_percent_result:
  "replace_single_percent g = Inr r \<Longrightarrow>
     \<exists>w. number_to_words g = Inr w \<and> r = w @ '' percent''"
  by (auto simp: replace_single_percent_def split: sum.splits)

lemma prepend_Inr: "prepend r (Inr t) = Inr (r @ t)"
  by (simp add: prepend_def)

lemma prepend_Inl: "prepend r (Inl e) = Inl e"
  by (simp add: prepend_def)

lemma prepend_Nil: "prepend [] x = x"
  by (cases x) (simp_all add: prepend_def)

lemma prepend_prepend: "prepend u (prepend v x) = prepend (u @ v) x"
  by (cases x) (simp_all add: prepend_def)

lemma prepend_eq_Inr: "prepend r x = Inr t \<longleftrightarrow> (\<exists>t'. x = Inr t' \<and> t = r @ t')"
  by (cases x) (auto simp: prepend_def)

subsection \<open>Where a pass changes nothing\<close>

lemma match_percent_range_needs_dash:
  "CHR ''-'' \<notin> set s \<Longrightarrow> match_percent_range s = None"
proof (rule ccontr)
  assume a: "CHR ''-'' \<notin> set s" and "match_percent_range s \<noteq> None"
  then obtain g1 g2 rest where "match_percent_range s = Some (g1, g2, rest)" by auto
  from match_percent_range_sound [OF this] show False using a by auto
qed

lemma match_percent_range_needs_percent:
  "CHR ''%'' \<notin> set s \<Longrightarrow> match_percent_range s = None"
proof (rule ccontr)
  assume a: "CHR ''%'' \<notin> set s" and "match_percent_range s \<noteq> None"
  then obtain g1 g2 rest where "match_percent_range s = Some (g1, g2, rest)" by auto
  from match_percent_range_sound [OF this] show False using a by auto
qed

lemma match_number_range_needs_dash:
  "CHR ''-'' \<notin> set s \<Longrightarrow> match_number_range s = None"
proof (rule ccontr)
  assume a: "CHR ''-'' \<notin> set s" and "match_number_range s \<noteq> None"
  then obtain g1 g2 g3 rest where "match_number_range s = Some (g1, g2, g3, rest)" by auto
  from match_number_range_sound [OF this] show False using a by auto
qed

lemma match_single_percent_needs_percent:
  "CHR ''%'' \<notin> set s \<Longrightarrow> match_single_percent s = None"
proof (rule ccontr)
  assume a: "CHR ''%'' \<notin> set s" and "match_single_percent s \<noteq> None"
  then obtain g1 rest where "match_single_percent s = Some (g1, rest)" by auto
  from match_single_percent_sound [OF this] show False using a by auto
qed

lemma sub_percent_range_id:
  "(\<And>pre u. s = pre @ u \<Longrightarrow> match_percent_range u = None) \<Longrightarrow> sub_percent_range s = Inr s"
proof (induction s)
  case Nil
  show ?case by simp
next
  case (Cons c cs)
  have "match_percent_range (c # cs) = None" using Cons.prems [of "[]"] by simp
  moreover have "sub_percent_range cs = Inr cs"
  proof (rule Cons.IH)
    fix pre u assume "cs = pre @ u"
    then show "match_percent_range u = None" using Cons.prems [of "c # pre" u] by simp
  qed
  ultimately show ?case by (simp add: prepend_Inr)
qed

lemma sub_number_range_id:
  "(\<And>pre u. s = pre @ u \<Longrightarrow> match_number_range u = None) \<Longrightarrow> sub_number_range s = Inr s"
proof (induction s)
  case Nil
  show ?case by simp
next
  case (Cons c cs)
  have "match_number_range (c # cs) = None" using Cons.prems [of "[]"] by simp
  moreover have "sub_number_range cs = Inr cs"
  proof (rule Cons.IH)
    fix pre u assume "cs = pre @ u"
    then show "match_number_range u = None" using Cons.prems [of "c # pre" u] by simp
  qed
  ultimately show ?case by (simp add: prepend_Inr)
qed

lemma sub_single_percent_id:
  "(\<And>pre u. s = pre @ u \<Longrightarrow> match_single_percent u = None) \<Longrightarrow> sub_single_percent s = Inr s"
proof (induction s)
  case Nil
  show ?case by simp
next
  case (Cons c cs)
  have "match_single_percent (c # cs) = None" using Cons.prems [of "[]"] by simp
  moreover have "sub_single_percent cs = Inr cs"
  proof (rule Cons.IH)
    fix pre u assume "cs = pre @ u"
    then show "match_single_percent u = None" using Cons.prems [of "c # pre" u] by simp
  qed
  ultimately show ?case by (simp add: prepend_Inr)
qed

lemma sub_percent_range_no_dash: "CHR ''-'' \<notin> set s \<Longrightarrow> sub_percent_range s = Inr s"
  by (rule sub_percent_range_id) (auto intro: match_percent_range_needs_dash)

lemma sub_percent_range_no_percent: "CHR ''%'' \<notin> set s \<Longrightarrow> sub_percent_range s = Inr s"
  by (rule sub_percent_range_id) (auto intro: match_percent_range_needs_percent)

lemma sub_number_range_no_dash: "CHR ''-'' \<notin> set s \<Longrightarrow> sub_number_range s = Inr s"
  by (rule sub_number_range_id) (auto intro: match_number_range_needs_dash)

lemma sub_single_percent_no_percent: "CHR ''%'' \<notin> set s \<Longrightarrow> sub_single_percent s = Inr s"
  by (rule sub_single_percent_id) (auto intro: match_single_percent_needs_percent)

lemma sub_percent_range_hit:
  assumes "match_percent_range s = Some (g1, g2, rest)"
  shows "sub_percent_range s =
           (case replace_percent_range g1 g2 of
              Inl e \<Rightarrow> Inl e
            | Inr r \<Rightarrow> prepend r (sub_percent_range rest))"
proof (cases s)
  case Nil
  then show ?thesis using match_percent_range_sound [OF assms] by simp
next
  case (Cons c cs)
  then show ?thesis using assms by simp
qed

lemma sub_single_percent_hit:
  assumes "match_single_percent s = Some (g1, rest)"
  shows "sub_single_percent s =
           (case replace_single_percent g1 of
              Inl e \<Rightarrow> Inl e
            | Inr r \<Rightarrow> prepend r (sub_single_percent rest))"
proof (cases s)
  case Nil
  then show ?thesis using match_single_percent_sound [OF assms] by simp
next
  case (Cons c cs)
  then show ?thesis using assms by simp
qed

lemma sub_number_range_hit:
  assumes "match_number_range s = Some (g1, g2, g3, rest)"
  shows "sub_number_range s =
           (case replace_number_range g1 g2 g3 of
              Inl e \<Rightarrow> Inl e
            | Inr r \<Rightarrow> prepend r (sub_number_range rest))"
proof (cases s)
  case Nil
  then show ?thesis using match_number_range_sound [OF assms] by simp
next
  case (Cons c cs)
  then show ?thesis using assms by simp
qed

lemma plain_replace_percent_range:
  assumes "list_all is_digit a" "list_all is_digit b" "replace_percent_range a b = Inr r"
  shows "plain r"
proof -
  from replace_percent_range_result [OF assms(3)] obtain wa wb
    where w: "number_to_words a = Inr wa" "number_to_words b = Inr wb"
      and r: "r = wa @ '' to '' @ wb @ '' percent''" by blast
  show ?thesis
    using number_to_words_plain [OF assms(1) w(1)] number_to_words_plain [OF assms(2) w(2)]
    by (simp add: r plain_def)
qed

subsection \<open>Evaluating the formatter on a given text\<close>

lemmas number_eval =
  number_to_words_def py_int_def int_max_str_digits_def digits_value_def digit_value_def
  ones_def teens_def tens_def Let_def

lemmas match_eval =
  match_percent_range_def match_number_range_def match_single_percent_def
  re_plus_def re_lit_def is_digit_def is_space_def

lemmas format_eval =
  format_numbers_for_speech_def replace_percent_range_def replace_number_range_def
  replace_single_percent_def prepend_def match_eval number_eval

subsection \<open>Texts without a digit before a percent sign\<close>

text \<open>
  \<open>tails s\<close> lists the suffixes of \<open>s\<close>, the places where a scan can try a
  pattern; \<open>no_match m s\<close> says that the pattern \<open>m\<close> matches at none of them.
  \<open>no_digit_percent s\<close> says that no "%" of \<open>s\<close> stands right after a digit.
\<close>

fun tails :: "string \<Rightarrow> string list" where
  "tails [] = [[]]"
| "tails (c # cs) = (c # cs) # tails cs"

definition no_match :: "(string \<Rightarrow> 'a option) \<Rightarrow> string \<Rightarrow> bool" where
  "no_match m s = list_all (\<lambda>u. m u = None) (tails s)"

fun no_digit_percent :: "string \<Rightarrow> bool" where
  "no_digit_percent (c # d # cs) = (\<not> (is_digit c \<and> d = CHR ''%'') \<and> no_digit_percent (d # cs))"
| "no_digit_percent [c] = True"
| "no_digit_percent [] = True"

lemma set_tails: "u \<in> set (tails s) \<longleftrightarrow> (\<exists>pre. s = pre @ u)"
proof (induction s)
  case Nil
  show ?case by simp
next
  case (Cons c cs)
  show ?case
  proof
    assume "u \<in> set (tails (c # cs))"
    then consider "u = c # cs" | "u \<in> set (tails cs)" by auto
    then show "\<exists>pre. c # cs = pre @ u"
    proof cases
      case 1
      then have "c # cs = [] @ u" by simp
      then show ?thesis by blast
    next
      case 2
      then obtain pre where "cs = pre @ u" using Cons by blast
      then have "c # cs = (c # pre) @ u" by simp
      then show ?thesis by blast
    qed
  next
    assume "\<exists>pre. c # cs = pre @ u"
    then obtain pre where p: "c # cs = pre @ u" by blast
    show "u \<in> set (tails (c # cs))"
    proof (cases pre)
      case Nil
      then have "u = c # cs" using p by simp
      then show ?thesis by simp
    next
      case (Cons x pre')
      then have "cs = pre' @ u" using p by simp
      then show ?thesis using Cons.IH by auto
    qed
  qed
qed

lemma no_match_iff: "no_match m s \<longleftrightarrow> (\<forall>pre u. s = pre @ u \<longrightarrow> m u = None)"
  by (auto simp: no_match_def list_all_iff set_tails)

lemma ndp_append:
  "no_digit_percent (xs @ ys) \<longleftrightarrow>
     no_digit_percent xs \<and> no_digit_percent ys \<and>
     (xs \<noteq> [] \<and> ys \<noteq> [] \<longrightarrow> \<not> (is_digit (last xs) \<and> hd ys = CHR ''%''))"
proof (induction xs rule: no_digit_percent.induct)
  case (1 c d cs)
  then show ?case by auto
next
  case (2 c)
  show ?case by (cases ys) auto
next
  case 3
  show ?case by simp
qed

lemma ndp_no_percent: "CHR ''%'' \<notin> set s \<Longrightarrow> no_digit_percent s"
  by (induction s rule: no_digit_percent.induct) auto

lemma ndp_suffix: "no_digit_percent (pre @ u) \<Longrightarrow> no_digit_percent u"
  by (simp add: ndp_append)

lemma ndp_run:
  assumes "g \<noteq> []" "list_all is_digit g"
  shows "\<not> no_digit_percent (g @ CHR ''%'' # rest)"
proof -
  have "is_digit (last g)" using assms by (simp add: list_all_iff)
  then show ?thesis using assms(1) by (simp add: ndp_append)
qed

lemma ndp_single_percent: "no_digit_percent s \<Longrightarrow> match_single_percent s = None"
proof (rule ccontr)
  assume n: "no_digit_percent s" and "match_single_percent s \<noteq> None"
  then obtain g rest where "match_single_percent s = Some (g, rest)" by auto
  from match_single_percent_sound [OF this] show False using n ndp_run by blast
qed

lemma ndp_percent_range: "no_digit_percent s \<Longrightarrow> match_percent_range s = None"
proof (rule ccontr)
  assume n: "no_digit_percent s" and "match_percent_range s \<noteq> None"
  then obtain a b rest where "match_percent_range s = Some (a, b, rest)" by auto
  from match_percent_range_sound [OF this]
  have b: "b \<noteq> []" "list_all is_digit b" and s: "s = (a @ ''-'') @ b @ CHR ''%'' # rest"
    by simp_all
  from n s have "no_digit_percent (b @ CHR ''%'' # rest)" using ndp_suffix by blast
  then show False using ndp_run [OF b] by blast
qed

lemma ndp_sub_percent_range: "no_digit_percent s \<Longrightarrow> sub_percent_range s = Inr s"
  by (rule sub_percent_range_id) (auto dest: ndp_suffix intro: ndp_percent_range)

lemma ndp_sub_single_percent: "no_digit_percent s \<Longrightarrow> sub_single_percent s = Inr s"
  by (rule sub_single_percent_id) (auto dest: ndp_suffix intro: ndp_single_percent)

lemma plain_head: "w \<noteq> [] \<Longrightarrow> plain w \<Longrightarrow> w @ x \<noteq> CHR ''%'' # t"
  by (cases w) (auto simp: plain_def)

lemma replace_single_percent_shape:
  assumes "g \<noteq> []" "list_all is_digit g" "replace_single_percent g = Inr r"
  shows "r \<noteq> []" "CHR ''%'' \<notin> set r" "\<not> is_digit (last r)" "r @ x \<noteq> CHR ''%'' # t"
proof -
  from replace_single_percent_result [OF assms(3)] obtain w
    where w: "number_to_words g = Inr w" and r: "r = w @ '' percent''" by blast
  have p: "plain w" using assms(2) w by (rule number_to_words_plain)
  have n: "w \<noteq> []" using assms(1) w by (rule number_to_words_nonempty)
  show "r \<noteq> []" by (simp add: r)
  show "CHR ''%'' \<notin> set r" using p by (simp add: r plain_def)
  show "\<not> is_digit (last r)" by (simp add: r is_digit_def)
  show "r @ x \<noteq> CHR ''%'' # t" using plain_head [OF n p] by (simp add: r)
qed

lemma unit_shape:
  assumes "u \<in> set [''weeks'', ''days'', ''months'', ''hours'']"
  shows "u \<noteq> []" "CHR ''%'' \<notin> set u" "\<not> is_digit (last u)" "CHR ''-'' \<notin> set u"
  using assms by (auto simp: is_digit_def)

lemma replace_number_range_shape:
  assumes "a \<noteq> []" "list_all is_digit a" "list_all is_digit b"
    and "u \<in> set [''weeks'', ''days'', ''months'', ''hours'']"
    and "replace_number_range a b u = Inr r"
  shows "r \<noteq> []" "CHR ''%'' \<notin> set r" "\<not> is_digit (last r)" "r @ x \<noteq> CHR ''%'' # t"
    "CHR ''-'' \<notin> set r"
proof -
  from replace_number_range_result [OF assms(5)] obtain wa wb
    where w: "number_to_words a = Inr wa" "number_to_words b = Inr wb"
      and r: "r = wa @ '' to '' @ wb @ '' '' @ u" by blast
  have pa: "plain wa" using assms(2) w(1) by (rule number_to_words_plain)
  have pb: "plain wb" using assms(3) w(2) by (rule number_to_words_plain)
  have n: "wa \<noteq> []" using assms(1) w(1) by (rule number_to_words_nonempty)
  note us = unit_shape [OF assms(4)]
  show "r \<noteq> []" by (simp add: r)
  show "CHR ''%'' \<notin> set r" using pa pb us(2) by (simp add: r plain_def)
  show "CHR ''-'' \<notin> set r" using pa pb us(4) by (simp add: r plain_def)
  show "\<not> is_digit (last r)" using us(1,3) by (simp add: r)
  show "r @ x \<noteq> CHR ''%'' # t" using plain_head [OF n pa] by (simp add: r)
qed

lemma sub_single_percent_head:
  assumes "sub_single_percent s = Inr (CHR ''%'' # t)"
  shows "\<exists>r. s = CHR ''%'' # r"
proof (cases s)
  case Nil
  then show ?thesis using assms by simp
next
  case (Cons c cs)
  show ?thesis
  proof (cases "match_single_percent s")
    case None
    then show ?thesis using assms Cons by (auto simp: prepend_eq_Inr)
  next
    case (Some x)
    obtain g rest where x: "x = (g, rest)" by (cases x)
    have m: "match_single_percent s = Some (g, rest)" using Some x by simp
    from match_single_percent_sound [OF m] have g: "g \<noteq> []" "list_all is_digit g" by simp_all
    have h: "sub_single_percent s =
        (case replace_single_percent g of Inl e \<Rightarrow> Inl e
         | Inr r \<Rightarrow> prepend r (sub_single_percent rest))"
      using m by (rule sub_single_percent_hit)
    show ?thesis
    proof (cases "replace_single_percent g")
      case (Inl e)
      then show ?thesis using h assms by simp
    next
      case (Inr r)
      then have "prepend r (sub_single_percent rest) = Inr (CHR ''%'' # t)"
        using h assms by simp
      then obtain t' where "r @ t' = CHR ''%'' # t" by (auto simp: prepend_eq_Inr)
      then show ?thesis using replace_single_percent_shape(4) [OF g Inr] by blast
    qed
  qed
qed

lemma sub_number_range_head:
  assumes "sub_number_range s = Inr (CHR ''%'' # t)"
  shows "\<exists>r. s = CHR ''%'' # r"
proof (cases s)
  case Nil
  then show ?thesis using assms by simp
next
  case (Cons c cs)
  show ?thesis
  proof (cases "match_number_range s")
    case None
    then show ?thesis using assms Cons by (auto simp: prepend_eq_Inr)
  next
    case (Some x)
    obtain a b u rest where x: "x = (a, b, u, rest)" by (cases x)
    have m: "match_number_range s = Some (a, b, u, rest)" using Some x by simp
    from match_number_range_sound [OF m]
    have g: "a \<noteq> []" "list_all is_digit a" "list_all is_digit b"
      "u \<in> set [''weeks'', ''days'', ''months'', ''hours'']" by simp_all
    have h: "sub_number_range s =
        (case replace_number_range a b u of Inl e \<Rightarrow> Inl e
         | Inr r \<Rightarrow> prepend r (sub_number_range rest))"
      using m by (rule sub_number_range_hit)
    show ?thesis
    proof (cases "replace_number_range a b u")
      case (Inl e)
      then show ?thesis using h assms by simp
    next
      case (Inr r)
      then have "prepend r (sub_number_range rest) = Inr (CHR ''%'' # t)"
        using h assms by simp
      then obtain t' where "r @ t' = CHR ''%'' # t" by (auto simp: prepend_eq_Inr)
      then show ?thesis using replace_number_range_shape(4) [OF g Inr] by blast
    qed
  qed
qed

lemma ndp_Cons:
  "no_digit_percent (c # s) \<longleftrightarrow> no_digit_percent s \<and> \<not> (is_digit c \<and> (\<exists>r. s = CHR ''%'' # r))"
  by (cases s) auto

lemma ndp_after_single_percent: "sub_single_percent s = Inr t \<Longrightarrow> no_digit_percent t"
proof (induction s arbitrary: t rule: length_induct)
  case (1 s)
  show ?case
  proof (cases s)
    case Nil
    then show ?thesis using "1.prems" by simp
  next
    case (Cons c cs)
    show ?thesis
    proof (cases "match_single_percent s")
      case None
      then obtain t' where t': "sub_single_percent cs = Inr t'" and t: "t = c # t'"
        using "1.prems" Cons by (auto simp: prepend_eq_Inr)
      have ih: "no_digit_percent t'" using "1.IH" [rule_format, of cs t'] Cons t' by simp
      have "\<not> (is_digit c \<and> (\<exists>r. t' = CHR ''%'' # r))"
      proof
        assume a: "is_digit c \<and> (\<exists>r. t' = CHR ''%'' # r)"
        then obtain r where "cs = CHR ''%'' # r" using sub_single_percent_head t' by blast
        then have "s = [c] @ CHR ''%'' # r" using Cons by simp
        then have "match_single_percent s = Some ([c], r)"
          using a match_single_percent_run [of "[c]" r] by simp
        then show False using None by simp
      qed
      then show ?thesis using ih by (simp add: t ndp_Cons)
    next
      case (Some x)
      obtain g rest where x: "x = (g, rest)" by (cases x)
      have m: "match_single_percent s = Some (g, rest)" using Some x by simp
      from match_single_percent_sound [OF m] have g: "g \<noteq> []" "list_all is_digit g" by simp_all
      have h: "sub_single_percent s =
          (case replace_single_percent g of Inl e \<Rightarrow> Inl e
           | Inr r \<Rightarrow> prepend r (sub_single_percent rest))"
        using m by (rule sub_single_percent_hit)
      obtain r where r: "replace_single_percent g = Inr r"
        using h "1.prems" by (cases "replace_single_percent g") simp_all
      have "prepend r (sub_single_percent rest) = Inr t" using h r "1.prems" by simp
      then obtain t' where t': "sub_single_percent rest = Inr t'" and t: "t = r @ t'"
        by (auto simp: prepend_eq_Inr)
      have ih: "no_digit_percent t'"
        using "1.IH" [rule_format, of rest t'] match_single_percent_shorter [OF m] t' by simp
      show ?thesis
        using ih replace_single_percent_shape [OF g r]
        by (simp add: t ndp_append ndp_no_percent)
    qed
  qed
qed

lemma ndp_kept_by_number_range:
  "no_digit_percent s \<Longrightarrow> sub_number_range s = Inr t \<Longrightarrow> no_digit_percent t"
proof (induction s arbitrary: t rule: length_induct)
  case (1 s)
  show ?case
  proof (cases s)
    case Nil
    then show ?thesis using "1.prems" by simp
  next
    case (Cons c cs)
    show ?thesis
    proof (cases "match_number_range s")
      case None
      then obtain t' where t': "sub_number_range cs = Inr t'" and t: "t = c # t'"
        using "1.prems" Cons by (auto simp: prepend_eq_Inr)
      have n: "no_digit_percent cs" "\<not> (is_digit c \<and> (\<exists>r. cs = CHR ''%'' # r))"
        using "1.prems" Cons by (simp_all add: ndp_Cons)
      have ih: "no_digit_percent t'" using "1.IH" [rule_format, of cs t'] Cons n t' by simp
      have "\<not> (is_digit c \<and> (\<exists>r. t' = CHR ''%'' # r))"
        using n(2) sub_number_range_head t' by blast
      then show ?thesis using ih by (simp add: t ndp_Cons)
    next
      case (Some x)
      obtain a b u rest where x: "x = (a, b, u, rest)" by (cases x)
      have m: "match_number_range s = Some (a, b, u, rest)" using Some x by simp
      from match_number_range_sound [OF m]
      have g: "a \<noteq> []" "list_all is_digit a" "list_all is_digit b"
        "u \<in> set [''weeks'', ''days'', ''months'', ''hours'']"
        and "\<exists>ws. s = (a @ CHR ''-'' # b @ ws @ u) @ rest" by auto
      then have nr: "no_digit_percent rest" using "1.prems" ndp_suffix by blast
      have h: "sub_number_range s =
          (case replace_number_range a b u of Inl e \<Rightarrow> Inl e
           | Inr r \<Rightarrow> prepend r (sub_number_range rest))"
        using m by (rule sub_number_range_hit)
      obtain r where r: "replace_number_range a b u = Inr r"
        using h "1.prems" by (cases "replace_number_range a b u") simp_all
      have "prepend r (sub_number_range rest) = Inr t" using h r "1.prems" by simp
      then obtain t' where t': "sub_number_range rest = Inr t'" and t: "t = r @ t'"
        by (auto simp: prepend_eq_Inr)
      have ih: "no_digit_percent t'"
        using "1.IH" [rule_format, of rest t'] match_number_range_shorter [OF m] nr t' by simp
      show ?thesis
        using ih replace_number_range_shape [OF g r]
        by (simp add: t ndp_append ndp_no_percent)
    qed
  qed
qed

lemma ndp_format: "format_numbers_for_speech s = Inr t \<Longrightarrow> no_digit_percent t"
  by (auto simp: format_numbers_for_speech_def split: sum.splits dest: ndp_after_single_percent)

lemma format_no_match:
  assumes "no_match match_percent_range s" "no_match match_number_range s"
    "no_match match_single_percent s"
  shows "format_numbers_for_speech s = Inr s"
proof -
  have "sub_percent_range s = Inr s" "sub_number_range s = Inr s" "sub_single_percent s = Inr s"
    using assms
    by (simp_all add: no_match_iff sub_percent_range_id sub_number_range_id sub_single_percent_id)
  then show ?thesis by (simp add: format_numbers_for_speech_def)
qed

lemma format_of_ndp:
  assumes "no_digit_percent t"
  shows "format_numbers_for_speech t = sub_number_range t"
proof -
  have 1: "sub_percent_range t = Inr t" using assms by (rule ndp_sub_percent_range)
  show ?thesis
  proof (cases "sub_number_range t")
    case (Inl e)
    then show ?thesis by (simp add: format_numbers_for_speech_def 1)
  next
    case (Inr t2)
    have "no_digit_percent t2" using assms Inr by (rule ndp_kept_by_number_range)
    then have "sub_single_percent t2 = Inr t2" by (rule ndp_sub_single_percent)
    then show ?thesis using Inr by (simp add: format_numbers_for_speech_def 1)
  qed
qed

subsection \<open>Replacement texts and later passes\<close>

text \<open>
  A text is \<open>sealed\<close> when it is not empty, does not end in a digit and holds neither
  "-" nor "%". Every pattern starts with a run of digits followed by "-" or "%", so no
  such run can begin in a sealed text or run through it.
\<close>

definition sealed :: "string \<Rightarrow> bool" where
  "sealed r \<longleftrightarrow> r \<noteq> [] \<and> \<not> is_digit (last r) \<and> plain r"


lemma sealed_blocks:
  assumes "sealed r" "list_all is_digit g" "x = CHR ''-'' \<or> x = CHR ''%''"
  shows "r @ rest \<noteq> g @ x # tail"
proof
  assume "r @ rest = g @ x # tail"
  then consider w where "r = g @ w" "w @ rest = x # tail" | w where "r @ w = g"
    by (auto simp: append_eq_append_conv2)
  then show False
  proof cases
    case 1
    show False
    proof (cases w)
      case Nil
      then have "is_digit (last r)" using 1 assms(1,2) by (auto simp: sealed_def list_all_iff)
      then show False using assms(1) by (simp add: sealed_def)
    next
      case (Cons y w')
      then have "x \<in> set r" using 1 by auto
      then show False using assms(1,3) by (auto simp: sealed_def plain_def)
    qed
  next
    case 2
    then have "list_all is_digit r" using assms(2) by auto
    then have "is_digit (last r)" using assms(1) by (auto simp: sealed_def list_all_iff)
    then show False using assms(1) by (simp add: sealed_def)
  qed
qed

lemma sealed_single_percent: "sealed r \<Longrightarrow> match_single_percent (r @ rest) = None"
proof (rule ccontr)
  assume s: "sealed r" and "match_single_percent (r @ rest) \<noteq> None"
  then obtain g rest' where "match_single_percent (r @ rest) = Some (g, rest')" by auto
  from match_single_percent_sound [OF this] sealed_blocks [OF s, of g "CHR ''%''"]
  show False by blast
qed

lemma sealed_number_range: "sealed r \<Longrightarrow> match_number_range (r @ rest) = None"
proof (rule ccontr)
  assume s: "sealed r" and "match_number_range (r @ rest) \<noteq> None"
  then obtain a b u rest' where "match_number_range (r @ rest) = Some (a, b, u, rest')" by auto
  from match_number_range_sound [OF this] sealed_blocks [OF s, of a "CHR ''-''"]
  show False by blast
qed


lemma sealed_percent_range: "sealed r \<Longrightarrow> match_percent_range (r @ rest) = None"
proof (rule ccontr)
  assume s: "sealed r" and "match_percent_range (r @ rest) \<noteq> None"
  then obtain a b rest' where "match_percent_range (r @ rest) = Some (a, b, rest')" by auto
  from match_percent_range_sound [OF this] sealed_blocks [OF s, of a "CHR ''-''"]
  show False by blast
qed



subsection \<open>A match inside a longer text\<close>

text \<open>
  \<open>quiet_before pre\<close>: the text before a match holds neither "-" nor "%" and does
  not end in a digit, so no pattern matches at a position inside it, whatever follows.
\<close>

definition quiet_before :: "string \<Rightarrow> bool" where
  "quiet_before pre \<longleftrightarrow> plain pre \<and> (pre = [] \<or> \<not> is_digit (last pre))"

lemma quiet_before_Cons: "quiet_before (c # p) \<Longrightarrow> sealed (c # p) \<and> quiet_before p"
  by (cases p) (auto simp: quiet_before_def sealed_def plain_def)

lemma sub_percent_range_skip:
  "quiet_before pre \<Longrightarrow> sub_percent_range (pre @ s) = prepend pre (sub_percent_range s)"
proof (induction pre)
  case Nil
  show ?case by (simp add: prepend_Nil)
next
  case (Cons c p)
  from quiet_before_Cons [OF Cons.prems] have s: "sealed (c # p)" and q: "quiet_before p"
    by simp_all
  have "match_percent_range (c # p @ s) = None"
    using sealed_percent_range [OF s, of s] by simp
  then show ?case using Cons.IH [OF q] by (simp add: prepend_prepend)
qed

lemma sub_number_range_skip:
  "quiet_before pre \<Longrightarrow> sub_number_range (pre @ s) = prepend pre (sub_number_range s)"
proof (induction pre)
  case Nil
  show ?case by (simp add: prepend_Nil)
next
  case (Cons c p)
  from quiet_before_Cons [OF Cons.prems] have s: "sealed (c # p)" and q: "quiet_before p"
    by simp_all
  have "match_number_range (c # p @ s) = None"
    using sealed_number_range [OF s, of s] by simp
  then show ?case using Cons.IH [OF q] by (simp add: prepend_prepend)
qed

lemma sub_single_percent_skip:
  "quiet_before pre \<Longrightarrow> sub_single_percent (pre @ s) = prepend pre (sub_single_percent s)"
proof (induction pre)
  case Nil
  show ?case by (simp add: prepend_Nil)
next
  case (Cons c p)
  from quiet_before_Cons [OF Cons.prems] have s: "sealed (c # p)" and q: "quiet_before p"
    by simp_all
  have "match_single_percent (c # p @ s) = None"
    using sealed_single_percent [OF s, of s] by simp
  then show ?case using Cons.IH [OF q] by (simp add: prepend_prepend)
qed

lemma space_plain: "list_all is_space ws \<Longrightarrow> plain ws"
  by (auto simp: plain_def list_all_iff is_space_def)

lemma format_single_percent_context:
  assumes "quiet_before pre" "plain post" "g \<noteq> []" "list_all is_digit g"
    and "number_to_words g = Inr w"
  shows "format_numbers_for_speech (pre @ g @ ''%'' @ post) = Inr (pre @ w @ '' percent'' @ post)"
proof -
  have pp: "plain pre" using assms(1) by (simp add: quiet_before_def)
  have pg: "plain g" using assms(4) by (rule plain_digits)
  have p0: "plain (pre @ g)" using pp pg by (simp add: plain_append)
  have 1: "sub_percent_range (pre @ g @ ''%'' @ post) = Inr (pre @ g @ ''%'' @ post)"
    using pp pg assms(2) by (intro sub_percent_range_no_dash) (simp add: plain_def)
  have 2: "sub_number_range (pre @ g @ ''%'' @ post) = Inr (pre @ g @ ''%'' @ post)"
    using pp pg assms(2) by (intro sub_number_range_no_dash) (simp add: plain_def)
  have m: "match_single_percent (g @ CHR ''%'' # post) = Some (g, post)"
    using assms(3,4) by (rule match_single_percent_run)
  have po: "sub_single_percent post = Inr post"
    using assms(2) by (intro sub_single_percent_no_percent) (simp add: plain_def)
  have "sub_single_percent (g @ ''%'' @ post) = Inr (w @ '' percent'' @ post)"
    using sub_single_percent_hit [OF m]
    by (simp add: replace_single_percent_returns [OF assms(5)] po prepend_Inr)
  then have 3: "sub_single_percent (pre @ g @ ''%'' @ post) = Inr (pre @ w @ '' percent'' @ post)"
    by (simp add: sub_single_percent_skip [OF assms(1)] prepend_Inr)
  show ?thesis by (simp only: format_numbers_for_speech_def 1 2 3 sum.case)
qed

lemma format_percent_range_context:
  assumes "quiet_before pre" "plain post" "a \<noteq> []" "list_all is_digit a"
    and "b \<noteq> []" "list_all is_digit b"
    and "number_to_words a = Inr wa" "number_to_words b = Inr wb"
  shows "format_numbers_for_speech (pre @ a @ ''-'' @ b @ ''%'' @ post) =
           Inr (pre @ wa @ '' to '' @ wb @ '' percent'' @ post)"
proof -
  let ?r = "wa @ '' to '' @ wb @ '' percent''"
  have pp: "plain pre" using assms(1) by (simp add: quiet_before_def)
  have r: "replace_percent_range a b = Inr ?r"
    using assms(7,8) by (rule replace_percent_range_returns)
  have pr: "plain ?r" using plain_replace_percent_range [OF assms(4,6) r] .
  have m: "match_percent_range (a @ CHR ''-'' # b @ CHR ''%'' # post) = Some (a, b, post)"
    using assms(3,4,5,6) by (rule match_percent_range_run)
  have po: "sub_percent_range post = Inr post"
    using assms(2) by (intro sub_percent_range_no_dash) (simp add: plain_def)
  have "sub_percent_range (a @ ''-'' @ b @ ''%'' @ post) = Inr (?r @ post)"
    using sub_percent_range_hit [OF m] by (simp add: r po prepend_Inr)
  then have 1: "sub_percent_range (pre @ a @ ''-'' @ b @ ''%'' @ post) = Inr (pre @ ?r @ post)"
    by (simp add: sub_percent_range_skip [OF assms(1)] prepend_Inr)
  have pl: "plain (pre @ ?r @ post)" using pp pr assms(2) by (simp only: plain_append)
  have 2: "sub_number_range (pre @ ?r @ post) = Inr (pre @ ?r @ post)"
    using pl by (intro sub_number_range_no_dash) (simp add: plain_def)
  have 3: "sub_single_percent (pre @ ?r @ post) = Inr (pre @ ?r @ post)"
    using pl by (intro sub_single_percent_no_percent) (simp add: plain_def)
  have "format_numbers_for_speech (pre @ a @ ''-'' @ b @ ''%'' @ post) = Inr (pre @ ?r @ post)"
    by (simp only: format_numbers_for_speech_def 1 2 3 sum.case)
  then show ?thesis by simp
qed

lemma format_number_range_context:
  assumes "quiet_before pre" "plain post" "a \<noteq> []" "list_all is_digit a"
    and "b \<noteq> []" "list_all is_digit b"
    and "ws \<noteq> []" "list_all is_space ws"
    and "u \<in> set [''weeks'', ''days'', ''months'', ''hours'']"
    and "number_to_words a = Inr wa" "number_to_words b = Inr wb"
  shows "format_numbers_for_speech (pre @ a @ ''-'' @ b @ ws @ u @ post) =
           Inr (pre @ wa @ '' to '' @ wb @ '' '' @ u @ post)"
proof -
  let ?r = "wa @ '' to '' @ wb @ '' '' @ u"
  let ?t = "pre @ a @ ''-'' @ b @ ws @ u @ post"
  have pp: "plain pre" using assms(1) by (simp add: quiet_before_def)
  have pu: "plain u" using unit_shape [OF assms(9)] by (simp add: plain_def)
  have r: "replace_number_range a b u = Inr ?r"
    using assms(10,11) by (rule replace_number_range_returns)
  have "CHR ''%'' \<notin> set ?t"
    using pp assms(2) plain_digits [OF assms(4)] plain_digits [OF assms(6)]
      space_plain [OF assms(8)] pu
    by (simp add: plain_def)
  then have 1: "sub_percent_range ?t = Inr ?t" by (rule sub_percent_range_no_percent)
  have m: "match_number_range (a @ CHR ''-'' # b @ ws @ u @ post) = Some (a, b, u, post)"
    using assms(3,4,5,6,7,8,9) by (rule match_number_range_run)
  have po: "sub_number_range post = Inr post"
    using assms(2) by (intro sub_number_range_no_dash) (simp add: plain_def)
  have "sub_number_range (a @ ''-'' @ b @ ws @ u @ post) = Inr (?r @ post)"
    using sub_number_range_hit [OF m] by (simp add: r po prepend_Inr)
  then have 2: "sub_number_range ?t = Inr (pre @ ?r @ post)"
    by (simp add: sub_number_range_skip [OF assms(1)] prepend_Inr)
  have "CHR ''%'' \<notin> set (pre @ ?r @ post)"
    using pp assms(2) pu number_to_words_plain [OF assms(4,10)] number_to_words_plain [OF assms(6,11)]
    by (simp add: plain_def)
  then have 3: "sub_single_percent (pre @ ?r @ post) = Inr (pre @ ?r @ post)"
    by (rule sub_single_percent_no_percent)
  have "format_numbers_for_speech ?t = Inr (pre @ ?r @ post)"
    by (simp only: format_numbers_for_speech_def 1 2 3 sum.case)
  then show ?thesis by simp
qed

section \<open>Claim C1: number\_to\_words from 0 to 999\<close>

text \<open>
  Claim C1. For every run of at most 4300 digits whose value is at most 999,
  \<open>number_to_words\<close> returns what the specification's rules give: zero, the ones
  word, the teens word, the tens word with an optional ones word and no "and", and for
  100 to 999 the ones word, " hundred" and, when the remainder is not zero, " and "
  followed by the remainder by the rules for 1 to 99. The decimal numeral of such a
  number has at most three digits; the bound on the length matters for numerals with
  leading zeros only. The eight spot checks of the specification hold.
\<close>

theorem number_to_words_exact:
  "(s \<noteq> [] \<and> list_all is_digit s \<and> length s \<le> int_max_str_digits \<and> digits_value s \<le> 999 \<longrightarrow>
      number_to_words s = Inr (words_spec (digits_value s)))
   \<and> number_to_words ''0'' = Inr ''zero''
   \<and> number_to_words ''7'' = Inr ''seven''
   \<and> number_to_words ''15'' = Inr ''fifteen''
   \<and> number_to_words ''20'' = Inr ''twenty''
   \<and> number_to_words ''35'' = Inr ''thirty five''
   \<and> number_to_words ''100'' = Inr ''one hundred''
   \<and> number_to_words ''150'' = Inr ''one hundred and fifty''
   \<and> number_to_words ''999'' = Inr ''nine hundred and ninety nine''"
proof -
  have spot: "number_to_words ''0'' = Inr ''zero''" "number_to_words ''7'' = Inr ''seven''"
    "number_to_words ''15'' = Inr ''fifteen''" "number_to_words ''20'' = Inr ''twenty''"
    "number_to_words ''35'' = Inr ''thirty five''" "number_to_words ''100'' = Inr ''one hundred''"
    "number_to_words ''150'' = Inr ''one hundred and fifty''"
    "number_to_words ''999'' = Inr ''nine hundred and ninety nine''"
    by (simp_all add: number_to_words_def py_int_def int_max_str_digits_def digits_value_def
        digit_value_def ones_def tens_def teens_def)
  show ?thesis using number_to_words_below_1000 [of s] spot by blast
qed

theorem number_to_words_exact_witness:
  "''407'' \<noteq> [] \<and> list_all is_digit ''407'' \<and> length ''407'' \<le> int_max_str_digits \<and>
   digits_value ''407'' \<le> 999
   \<and> number_to_words ''407'' = Inr (words_spec (digits_value ''407''))
   \<and> words_spec (digits_value ''407'') = ''four hundred and seven''"
proof -
  have h: "''407'' \<noteq> [] \<and> list_all is_digit ''407'' \<and> length ''407'' \<le> int_max_str_digits \<and>
      digits_value ''407'' \<le> 999"
    by (simp add: is_digit_def digits_value_def digit_value_def int_max_str_digits_def)
  have v: "words_spec (digits_value ''407'') = ''four hundred and seven''"
    by (simp add: digits_value_def digit_value_def words_spec_def words_below_100_def ones_word_def)
  show ?thesis using h v number_to_words_exact [of "''407''"] by simp
qed

section \<open>Claim C3: numbers of 1000 and more\<close>

text \<open>
  Claim C3 as stated, that a matched expression whose number is 1000 or more is left
  untouched, fails on the code: in "1500%" the number is 1500, the single-percent
  pattern matches, and the output is "1500 percent", not the input text.
\<close>

theorem format_large_number_counterexample:
  "1000 \<le> digits_value ''1500'' \<and>
   match_single_percent ''1500%'' = Some (''1500'', []) \<and>
   format_numbers_for_speech ''1500%'' = Inr ''1500 percent'' \<and>
   format_numbers_for_speech ''1500%'' \<noteq> Inr ''1500%''"
  by (simp add: format_eval)

text \<open>
  Claim C3, amended. For a run \<open>g\<close> of at most 4300 digits whose value is 1000 or
  more, \<open>number_to_words\<close> returns \<open>g\<close> itself. Wherever a pass finds a match
  with \<open>g\<close> as one of its numbers, whatever text follows, the replacement holds the
  digits of \<open>g\<close> verbatim and rewrites the rest of the match: "%" becomes
  " percent", the "-" of a range becomes " to ", and the whitespace before a unit
  becomes one space. For a match that stands in a longer text whose other parts hold
  neither "-" nor "%" (the part before it not ending in a digit), the formatter returns
  that text with the match rewritten in this way. The other number \<open>a\<close> of a range is
  any number that \<open>number_to_words\<close> converts.
\<close>

theorem format_large_number_keeps_digits:
  assumes "g \<noteq> []" "list_all is_digit g" "length g \<le> int_max_str_digits"
    and "1000 \<le> digits_value g"
    and "a \<noteq> []" "list_all is_digit a" "number_to_words a = Inr wa"
    and "quiet_before pre" "plain post"
    and "ws \<noteq> []" "list_all is_space ws"
    and "u \<in> set [''weeks'', ''days'', ''months'', ''hours'']"
  shows "number_to_words g = Inr g \<and>
         format_numbers_for_speech (pre @ g @ ''%'' @ post) =
           Inr (pre @ g @ '' percent'' @ post) \<and>
         format_numbers_for_speech (pre @ a @ ''-'' @ g @ ''%'' @ post) =
           Inr (pre @ wa @ '' to '' @ g @ '' percent'' @ post) \<and>
         format_numbers_for_speech (pre @ g @ ''-'' @ a @ ''%'' @ post) =
           Inr (pre @ g @ '' to '' @ wa @ '' percent'' @ post) \<and>
         format_numbers_for_speech (pre @ a @ ''-'' @ g @ ws @ u @ post) =
           Inr (pre @ wa @ '' to '' @ g @ '' '' @ u @ post) \<and>
         format_numbers_for_speech (pre @ g @ ''-'' @ a @ ws @ u @ post) =
           Inr (pre @ g @ '' to '' @ wa @ '' '' @ u @ post) \<and>
         (match_single_percent s1 = Some (g, r1) \<longrightarrow>
            sub_single_percent s1 = prepend (g @ '' percent'') (sub_single_percent r1)) \<and>
         (match_percent_range s2 = Some (a, g, r2) \<longrightarrow>
            sub_percent_range s2 =
              prepend (wa @ '' to '' @ g @ '' percent'') (sub_percent_range r2)) \<and>
         (match_percent_range s3 = Some (g, a, r3) \<longrightarrow>
            sub_percent_range s3 =
              prepend (g @ '' to '' @ wa @ '' percent'') (sub_percent_range r3)) \<and>
         (match_number_range s4 = Some (a, g, v, r4) \<longrightarrow>
            sub_number_range s4 =
              prepend (wa @ '' to '' @ g @ '' '' @ v) (sub_number_range r4)) \<and>
         (match_number_range s5 = Some (g, a, v, r5) \<longrightarrow>
            sub_number_range s5 =
              prepend (g @ '' to '' @ wa @ '' '' @ v) (sub_number_range r5))"
proof -
  have w: "number_to_words g = Inr g"
    using assms(3,4) by (rule number_to_words_large)
  have 1: "format_numbers_for_speech (pre @ g @ ''%'' @ post) =
      Inr (pre @ g @ '' percent'' @ post)"
    using assms(8,9,1,2) w by (rule format_single_percent_context)
  have 2: "format_numbers_for_speech (pre @ a @ ''-'' @ g @ ''%'' @ post) =
      Inr (pre @ wa @ '' to '' @ g @ '' percent'' @ post)"
    using assms(8,9,5,6,1,2,7) w by (rule format_percent_range_context)
  have 3: "format_numbers_for_speech (pre @ g @ ''-'' @ a @ ''%'' @ post) =
      Inr (pre @ g @ '' to '' @ wa @ '' percent'' @ post)"
    using assms(8,9,1,2,5,6) w assms(7) by (rule format_percent_range_context)
  have 4: "format_numbers_for_speech (pre @ a @ ''-'' @ g @ ws @ u @ post) =
      Inr (pre @ wa @ '' to '' @ g @ '' '' @ u @ post)"
    using assms(8,9,5,6,1,2,10,11,12,7) w by (rule format_number_range_context)
  have 5: "format_numbers_for_speech (pre @ g @ ''-'' @ a @ ws @ u @ post) =
      Inr (pre @ g @ '' to '' @ wa @ '' '' @ u @ post)"
    using assms(8,9,1,2,5,6,10,11,12) w assms(7) by (rule format_number_range_context)
  have 6: "sub_single_percent s1 = prepend (g @ '' percent'') (sub_single_percent r1)"
    if "match_single_percent s1 = Some (g, r1)"
    using sub_single_percent_hit [OF that] by (simp add: replace_single_percent_returns [OF w])
  have 7: "sub_percent_range s2 =
      prepend (wa @ '' to '' @ g @ '' percent'') (sub_percent_range r2)"
    if "match_percent_range s2 = Some (a, g, r2)"
    using sub_percent_range_hit [OF that]
    by (simp add: replace_percent_range_returns [OF assms(7) w])
  have 8: "sub_percent_range s3 =
      prepend (g @ '' to '' @ wa @ '' percent'') (sub_percent_range r3)"
    if "match_percent_range s3 = Some (g, a, r3)"
    using sub_percent_range_hit [OF that]
    by (simp add: replace_percent_range_returns [OF w assms(7)])
  have 9: "sub_number_range s4 =
      prepend (wa @ '' to '' @ g @ '' '' @ v) (sub_number_range r4)"
    if "match_number_range s4 = Some (a, g, v, r4)"
    using sub_number_range_hit [OF that]
    by (simp add: replace_number_range_returns [OF assms(7) w])
  have 10: "sub_number_range s5 =
      prepend (g @ '' to '' @ wa @ '' '' @ v) (sub_number_range r5)"
    if "match_number_range s5 = Some (g, a, v, r5)"
    using sub_number_range_hit [OF that]
    by (simp add: replace_number_range_returns [OF w assms(7)])
  show ?thesis using w 1 2 3 4 5 6 7 8 9 10 by blast
qed

theorem format_large_number_keeps_digits_witness:
  "number_to_words ''1500'' = Inr ''1500'' \<and>
   number_to_words ''150'' = Inr ''one hundred and fifty'' \<and>
   format_numbers_for_speech (''ROI of '' @ ''1500'' @ ''%'' @ '' a year'') =
     Inr (''ROI of '' @ ''1500'' @ '' percent'' @ '' a year'') \<and>
   format_numbers_for_speech (''ROI of '' @ ''150'' @ ''-'' @ ''1500'' @ ''%'' @ '' a year'') =
     Inr (''ROI of '' @ ''one hundred and fifty'' @ '' to '' @ ''1500'' @ '' percent'' @ '' a year'') \<and>
   format_numbers_for_speech (''ROI of '' @ ''1500'' @ ''-'' @ ''150'' @ '' '' @ ''weeks'' @ '' a year'') =
     Inr (''ROI of '' @ ''1500'' @ '' to '' @ ''one hundred and fifty'' @ '' '' @ ''weeks'' @ '' a year'') \<and>
   match_single_percent ''1500% and 20%'' = Some (''1500'', '' and 20%'') \<and>
   sub_single_percent ''1500% and 20%'' =
     prepend (''1500'' @ '' percent'') (sub_single_percent '' and 20%'') \<and>
   match_number_range ''150-1500 days, 3-4 days'' = Some (''150'', ''1500'', ''days'', '', 3-4 days'') \<and>
   sub_number_range ''150-1500 days, 3-4 days'' =
     prepend (''one hundred and fifty'' @ '' to '' @ ''1500'' @ '' '' @ ''days'')
       (sub_number_range '', 3-4 days'')"
proof -
  have h: "''1500'' \<noteq> []" "list_all is_digit ''1500''" "length ''1500'' \<le> int_max_str_digits"
    "1000 \<le> digits_value ''1500''" "''150'' \<noteq> []" "list_all is_digit ''150''"
    "number_to_words ''150'' = Inr ''one hundred and fifty''"
    "quiet_before ''ROI of ''" "plain '' a year''"
    "'' '' \<noteq> []" "list_all is_space '' ''"
    "''weeks'' \<in> set [''weeks'', ''days'', ''months'', ''hours'']"
    by (simp_all add: is_digit_def is_space_def quiet_before_def plain_def number_eval)
  have m: "match_single_percent ''1500% and 20%'' = Some (''1500'', '' and 20%'')"
    "match_number_range ''150-1500 days, 3-4 days'' = Some (''150'', ''1500'', ''days'', '', 3-4 days'')"
    by (simp_all add: match_eval)
  show ?thesis
    using h(7) m
      format_large_number_keeps_digits [OF h, where ?s1.0 = "''1500% and 20%''"
        and ?r1.0 = "'' and 20%''" and ?s4.0 = "''150-1500 days, 3-4 days''"
        and v = "''days''" and ?r4.0 = "'', 3-4 days''"]
    by blast
qed

section \<open>Claim C5: the order of the three passes\<close>




section \<open>Claim C7: applying the formatter twice\<close>

text \<open>
  Claim C7 as stated, that the formatter is idempotent on every string, fails on the
  code. In "1-2 week6%" the unit-range pattern finds no unit ("week6"), the
  single-percent pass turns "6%" into "six percent", and the output "1-2 weeksix
  percent" now holds the unit-range match "1-2 weeks": a second application rewrites it.
\<close>

theorem format_idempotent_counterexample:
  "format_numbers_for_speech ''1-2 week6%'' = Inr ''1-2 weeksix percent'' \<and>
   format_numbers_for_speech ''1-2 weeksix percent'' = Inr ''one to two weeksix percent'' \<and>
   ''one to two weeksix percent'' \<noteq> ''1-2 weeksix percent''"
  by (simp add: format_eval)

text \<open>
  Claim C7, amended. A text in which none of the three patterns matches at any position
  is returned unchanged. When the formatter returns a text \<open>t\<close>, no "%" of \<open>t\<close>
  stands after a digit, so the percent-range and the single-percent pattern match
  nowhere in \<open>t\<close>: worded numbers are not converted again, and applying the
  formatter to \<open>t\<close> is the unit-range pass alone on \<open>t\<close>, with the result of that
  pass. The formatter returns \<open>t\<close> again whenever \<open>t\<close> holds no unit-range match.
\<close>

theorem format_twice:
  "(no_match match_percent_range s \<and> no_match match_number_range s \<and>
      no_match match_single_percent s \<longrightarrow> format_numbers_for_speech s = Inr s) \<and>
   (format_numbers_for_speech s = Inr t \<longrightarrow>
      no_match match_percent_range t \<and>
      no_match match_single_percent t \<and>
      format_numbers_for_speech t = sub_number_range t \<and>
      (no_match match_number_range t \<longrightarrow> format_numbers_for_speech t = Inr t))"
proof -
  have second: "no_match match_percent_range t \<and>
      no_match match_single_percent t \<and>
      format_numbers_for_speech t = sub_number_range t \<and>
      (no_match match_number_range t \<longrightarrow> format_numbers_for_speech t = Inr t)"
    if f: "format_numbers_for_speech s = Inr t"
  proof -
    have t: "no_digit_percent t" using f by (rule ndp_format)
    have 1: "no_match match_percent_range t"
      using t by (auto simp: no_match_iff dest: ndp_suffix intro: ndp_percent_range)
    have 3: "no_match match_single_percent t"
      using t by (auto simp: no_match_iff dest: ndp_suffix intro: ndp_single_percent)
    have tw: "format_numbers_for_speech t = sub_number_range t"
      using t by (rule format_of_ndp)
    have "sub_number_range t = Inr t" if "no_match match_number_range t"
      using that by (simp add: no_match_iff sub_number_range_id)
    then show ?thesis using 1 3 tw by simp
  qed
  show ?thesis using second format_no_match [of s] by blast
qed

theorem format_twice_witness:
  "no_match match_percent_range ''six weeks'' \<and>
   no_match match_number_range ''six weeks'' \<and>
   no_match match_single_percent ''six weeks'' \<and>
   format_numbers_for_speech ''six weeks'' = Inr ''six weeks'' \<and>
   format_numbers_for_speech ''Costs 25%.'' = Inr ''Costs twenty five percent.'' \<and>
   no_match match_number_range ''Costs twenty five percent.'' \<and>
   format_numbers_for_speech ''Costs twenty five percent.'' = Inr ''Costs twenty five percent.''"
proof -
  have h1: "no_match match_percent_range ''six weeks'' \<and>
      no_match match_number_range ''six weeks'' \<and> no_match match_single_percent ''six weeks''"
    by (simp add: no_match_def match_eval)
  have v: "format_numbers_for_speech ''Costs 25%.'' = Inr ''Costs twenty five percent.''"
    by (simp add: format_eval)
  have h2: "no_match match_number_range ''Costs twenty five percent.''"
    by (simp add: no_match_def match_eval)
  show ?thesis
    using h1 h2 v format_twice [of "''six weeks''"]
      format_twice [of "''Costs 25%.''" "''Costs twenty five percent.''"]
    by blast
qed

section \<open>The retrieval module rag.py\<close>

text \<open>
  The module talks to three external services: the OpenAI client (embeddings and chat
  completions), the Pinecone client and the Pinecone index. Their behaviour is a
  parameter of the model: a record \<open>deps\<close> gives, for one call of a module function,
  the configuration read at import time and what each external operation returns or
  raises. An exception is a value of type \<open>exn\<close>; all of them are subclasses of
  Python's \<open>Exception\<close>, which is what the handlers of the module catch. Logging has
  no effect on any result and is left out. Objects handed out by the services (the
  client, the index) are identified by a number.
\<close>

datatype exn = ImportError | AttributeError | TypeError | IndexError | ServiceError string

datatype pyval = PyNone | PyStr string | PyNum real | PyBool bool

type_synonym obj = nat

type_synonym embedding = "real list"

type_synonym metadata = "string \<rightharpoonup> pyval"

record query_params =
  qp_vector :: embedding
  qp_top_k :: int
  qp_include_metadata :: bool
  qp_filter :: "(string \<times> string) list option"

text \<open>
  A match of a query result is read with \<open>match.get\<close>: a missing "id" or "score"
  reads as \<open>None\<close>, a missing "metadata" as the empty dictionary.
\<close>

record pine_match =
  m_id :: pyval
  m_score :: pyval
  m_metadata :: "metadata option"

record document =
  d_id :: pyval
  d_score :: pyval
  d_metadata :: metadata
  d_text :: pyval

record upsert_vector =
  uv_id :: string
  uv_values :: embedding
  uv_metadata :: metadata

record deps =
  PINECONE_API_KEY :: "string option"
  PINECONE_INDEX_NAME :: string
  openai_client :: "obj option"
  import_pinecone :: "exn option"
  new_Pinecone :: "string \<Rightarrow> exn + obj"
  list_indexes :: "obj \<Rightarrow> exn + string list"
  open_Index :: "obj \<Rightarrow> string \<Rightarrow> exn + obj"
  embeddings_create :: "obj \<Rightarrow> string \<Rightarrow> exn + embedding"
  index_query :: "obj \<Rightarrow> query_params \<Rightarrow> exn + pine_match list option"
  index_upsert :: "obj \<Rightarrow> upsert_vector \<Rightarrow> exn option"
  chat_create :: "obj \<Rightarrow> string \<Rightarrow> string \<Rightarrow> exn + string option"
  uuid4 :: string

text \<open>
  The two module-level globals that the functions assign. The tests \<open>not
  pinecone_index\<close> and \<open>not openai_client\<close> of the source are true exactly when
  the global is \<open>None\<close>: a client or index object is true.
\<close>

record rag_state =
  pinecone_client :: "obj option"
  pinecone_index :: "obj option"

text \<open>Truth value of an optional string: \<open>None\<close> and the empty string are false.\<close>

definition truthy :: "string option \<Rightarrow> bool" where
  "truthy s = (case s of None \<Rightarrow> False | Some v \<Rightarrow> v \<noteq> [])"

subsection \<open>initialize\_pinecone\<close>

text \<open>
  The body of the \<open>try\<close> statement, with the state it leaves behind: the client
  global is assigned before the index is looked up, so it stays assigned when a later
  step fails. The inner handler (\<open>ImportError\<close>) and the outer one both return
  \<open>False\<close>.
\<close>

definition initialize_pinecone_try :: "deps \<Rightarrow> rag_state \<Rightarrow> rag_state \<times> (exn + bool)" where
  "initialize_pinecone_try d st =
     (if \<not> truthy (PINECONE_API_KEY d) then (st, Inr False)
      else case import_pinecone d of
        Some e \<Rightarrow> (if e = ImportError then (st, Inr False) else (st, Inl e))
      | None \<Rightarrow>
         (case new_Pinecone d (the (PINECONE_API_KEY d)) of
            Inl e \<Rightarrow> (st, Inl e)
          | Inr c \<Rightarrow>
             (let st1 = st\<lparr>pinecone_client := Some c\<rparr> in
              case list_indexes d c of
                Inl e \<Rightarrow> (st1, Inl e)
              | Inr existing_indexes \<Rightarrow>
                 if PINECONE_INDEX_NAME d \<notin> set existing_indexes then (st1, Inr False)
                 else (case open_Index d c (PINECONE_INDEX_NAME d) of
                         Inl e \<Rightarrow> (st1, Inl e)
                       | Inr i \<Rightarrow> (st1\<lparr>pinecone_index := Some i\<rparr>, Inr True)))))"

definition initialize_pinecone :: "deps \<Rightarrow> rag_state \<Rightarrow> rag_state \<times> bool" where
  "initialize_pinecone d st =
     (case initialize_pinecone_try d st of
        (st', Inr b) \<Rightarrow> (st', b)
      | (st', Inl e) \<Rightarrow> (st', False))"

subsection \<open>get\_embedding\<close>

definition get_embedding :: "deps \<Rightarrow> string \<Rightarrow> embedding" where
  "get_embedding d txt =
     (case openai_client d of
        None \<Rightarrow> []
      | Some oc \<Rightarrow>
         (case embeddings_create d oc txt of
            Inl e \<Rightarrow> []
          | Inr v \<Rightarrow> v))"

subsection \<open>query\_pinecone\<close>

definition document_of_match :: "pine_match \<Rightarrow> document" where
  "document_of_match m =
     (let md = (case m_metadata m of None \<Rightarrow> Map.empty | Some x \<Rightarrow> x) in
      \<lparr>d_id = m_id m,
       d_score = m_score m,
       d_metadata = md,
       d_text = (case md ''text'' of None \<Rightarrow> PyStr [] | Some v \<Rightarrow> v)\<rparr>)"

text \<open>
  The \<open>try\<close> block of \<open>query_pinecone\<close>. A filter is sent only when
  \<open>filter_dict\<close> is a non-empty dictionary. A call of \<open>query\<close> on an index global
  that is \<open>None\<close> would raise \<open>AttributeError\<close>.
\<close>

definition query_pinecone_try ::
  "deps \<Rightarrow> rag_state \<Rightarrow> string \<Rightarrow> int \<Rightarrow> (string \<times> string) list option \<Rightarrow> exn + document list" where
  "query_pinecone_try d st query_text top_k filter_dict =
     (let query_embedding = get_embedding d query_text in
      if query_embedding = [] then Inr []
      else
        (let query_params =
               \<lparr>qp_vector = query_embedding, qp_top_k = top_k, qp_include_metadata = True,
                qp_filter = (case filter_dict of
                               None \<Rightarrow> None
                             | Some f \<Rightarrow> if f \<noteq> [] then Some f else None)\<rparr> in
         case pinecone_index st of
           None \<Rightarrow> Inl AttributeError
         | Some ix \<Rightarrow>
            (case index_query d ix query_params of
               Inl e \<Rightarrow> Inl e
             | Inr results \<Rightarrow>
                Inr (map document_of_match
                       (case results of None \<Rightarrow> [] | Some ms \<Rightarrow> ms)))))"

definition query_pinecone ::
  "deps \<Rightarrow> rag_state \<Rightarrow> string \<Rightarrow> int \<Rightarrow> (string \<times> string) list option
     \<Rightarrow> rag_state \<times> document list" where
  "query_pinecone d st query_text top_k filter_dict =
     (let (st1, ready) =
            (if pinecone_index st = None then initialize_pinecone d st else (st, True)) in
      if \<not> ready then (st1, [])
      else case query_pinecone_try d st1 query_text top_k filter_dict of
             Inl e \<Rightarrow> (st1, [])
           | Inr documents \<Rightarrow> (st1, documents))"

subsection \<open>format\_context\_from\_documents\<close>

definition nl :: string where
  "nl = [CHR 0x0A]"

fun str_nat :: "nat \<Rightarrow> string" where
  "str_nat n =
     (if n < 10 then [''0123456789'' ! n]
      else str_nat (n div 10) @ [''0123456789'' ! (n mod 10)])"

declare str_nat.simps [simp del]

text \<open>
  \<open>sep.join(parts)\<close> raises \<open>TypeError\<close> when an item is not a string; the text of
  a document comes from the index and can be any value.
\<close>

fun join_strs :: "string \<Rightarrow> string list \<Rightarrow> string" where
  "join_strs sep [] = []"
| "join_strs sep [x] = x"
| "join_strs sep (x # y # ys) = x @ sep @ join_strs sep (y # ys)"

fun strs_of :: "pyval list \<Rightarrow> exn + string list" where
  "strs_of [] = Inr []"
| "strs_of (PyStr s # vs) = (case strs_of vs of Inl e \<Rightarrow> Inl e | Inr ss \<Rightarrow> Inr (s # ss))"
| "strs_of (v # vs) = Inl TypeError"

definition py_join :: "string \<Rightarrow> pyval list \<Rightarrow> exn + string" where
  "py_join sep parts = (case strs_of parts of Inl e \<Rightarrow> Inl e | Inr ss \<Rightarrow> Inr (join_strs sep ss))"

fun context_parts :: "nat \<Rightarrow> document list \<Rightarrow> pyval list" where
  "context_parts i [] = []"
| "context_parts i (doc # docs) =
     [PyStr (''[Document '' @ str_nat i @ '']''), d_text doc, PyStr []]
     @ context_parts (Suc i) docs"

definition format_context_from_documents :: "document list \<Rightarrow> exn + string" where
  "format_context_from_documents documents =
     (if documents = [] then Inr []
      else py_join nl (context_parts 1 documents))"

subsection \<open>generate\_fallback\_response\<close>

definition fallback_closing :: string where
  "fallback_closing =
     ''Tekisho's AI solutions typically deliver significant results. '' @
     ''Our clients see ROI ranging from 150 to 300 percent within 6 to 12 weeks. '' @
     ''Common benefits include cost savings of 25 to 40 percent and productivity improvements of 50 to 80 percent. '' @
     ''I'd be happy to connect you with our solution architects who can provide specific recommendations '' @
     ''tailored to your needs. Would that be helpful?''"

definition generate_fallback_response :: "string \<Rightarrow> string option \<Rightarrow> string" where
  "generate_fallback_response challenge industry =
     (let response = ''I understand you're facing challenges with '' @ challenge @ ''. '';
          response = (if truthy industry
                      then response @ ''For businesses in the '' @ the industry @ '' industry, ''
                      else response);
          response = response @ fallback_closing
      in response)"

subsection \<open>get\_tekisho\_solutions\<close>

definition strip :: "string \<Rightarrow> string" where
  "strip s = rev (dropWhile is_space (rev (dropWhile is_space s)))"

definition system_prompt :: string where
  "system_prompt =
     ''You are Aria, an AI solutions expert at Tekisho.'' @ nl @
     ''        Use the provided context to answer questions about AI solutions, automation, and business challenges.'' @ nl @
     ''        Provide specific metrics, ROI numbers, and implementation timelines when available.'' @ nl @
     ''        Be conversational, helpful, and focus on practical business value.'' @ nl @
     ''        If the context doesn't contain specific information, acknowledge that and provide general guidance.''"

definition user_prompt :: "string \<Rightarrow> string option \<Rightarrow> string \<Rightarrow> string" where
  "user_prompt challenge industry ctx =
     ''Based on the following context, provide a solution for this challenge:'' @ nl @
     '' '' @ nl @
     ''Challenge: '' @ challenge @ nl @
     (if truthy industry then ''Industry: '' @ the industry else []) @ nl @
     '' '' @ nl @
     ''Context from Tekisho knowledge base:'' @ nl @
     ctx @ nl @
     '' '' @ nl @
     ''Provide a conversational response that:'' @ nl @
     ''1. Addresses the specific challenge'' @ nl @
     ''2. Mentions relevant AI solutions or technologies'' @ nl @
     ''3. Includes metrics like ROI, cost savings, or productivity improvements (if available in context)'' @ nl @
     ''4. Suggests implementation approach or timeline'' @ nl @
     ''5. Keeps it natural and conversational (not bullet points)''"

text \<open>
  The query text and the filter built from the optional industry (the first statement
  of the \<open>try\<close> block).
\<close>

definition build_query :: "string \<Rightarrow> string option \<Rightarrow> string \<times> (string \<times> string) list option" where
  "build_query challenge industry =
     (if truthy industry
      then (the industry @ '' industry: '' @ challenge, Some [(''industry'', the industry)])
      else (challenge, None))"

text \<open>
  The \<open>try\<close> block of \<open>get_tekisho_solutions\<close>: it returns a string or raises.
  The chat call on a client that is \<open>None\<close>, and \<open>strip\<close> on a content that is
  \<open>None\<close>, raise \<open>AttributeError\<close>.
\<close>

definition get_tekisho_solutions_try ::
  "deps \<Rightarrow> rag_state \<Rightarrow> string \<Rightarrow> string option \<Rightarrow> int \<Rightarrow> rag_state \<times> (exn + string)" where
  "get_tekisho_solutions_try d st challenge industry top_k =
     (let (query_text, filter_dict) = build_query challenge industry;
          (st1, relevant_docs) = query_pinecone d st query_text top_k filter_dict in
      if relevant_docs = [] then (st1, Inr (generate_fallback_response challenge industry))
      else case format_context_from_documents relevant_docs of
        Inl e \<Rightarrow> (st1, Inl e)
      | Inr ctx \<Rightarrow>
         (case openai_client d of
            None \<Rightarrow> (st1, Inl AttributeError)
          | Some oc \<Rightarrow>
             (case chat_create d oc system_prompt (user_prompt challenge industry ctx) of
                Inl e \<Rightarrow> (st1, Inl e)
              | Inr None \<Rightarrow> (st1, Inl AttributeError)
              | Inr (Some content) \<Rightarrow> (st1, Inr (strip content)))))"

text \<open>
  The whole function: what the \<open>try\<close> block returns, or the fallback from the
  handler \<open>except Exception\<close>. The result is again a sum, so that "the call
  returns a string" is a statement about the model and not a fact of its type.
\<close>

definition get_tekisho_solutions ::
  "deps \<Rightarrow> rag_state \<Rightarrow> string \<Rightarrow> string option \<Rightarrow> int \<Rightarrow> rag_state \<times> (exn + string)" where
  "get_tekisho_solutions d st challenge industry top_k =
     (case get_tekisho_solutions_try d st challenge industry top_k of
        (st', Inr answer) \<Rightarrow> (st', Inr answer)
      | (st', Inl e) \<Rightarrow> (st', Inr (generate_fallback_response challenge industry)))"

subsection \<open>add\_document\_to\_knowledge\_base\<close>

text \<open>
  The caller's metadata dictionary is updated in place; the model returns it next to
  the state and the result. The \<open>try\<close> block returns the dictionary as it is when
  the block ends or raises.
\<close>

definition add_document_try ::
  "deps \<Rightarrow> rag_state \<Rightarrow> string \<Rightarrow> metadata \<Rightarrow> string option \<Rightarrow> metadata \<times> (exn + bool)" where
  "add_document_try d st txt md doc_id =
     (let embedding = get_embedding d txt in
      if embedding = [] then (md, Inr False)
      else
        (let md1 = md(''text'' \<mapsto> PyStr txt);
             doc_id1 = (if truthy doc_id then the doc_id else uuid4 d) in
         case pinecone_index st of
           None \<Rightarrow> (md1, Inl AttributeError)
         | Some ix \<Rightarrow>
            (case index_upsert d ix \<lparr>uv_id = doc_id1, uv_values = embedding, uv_metadata = md1\<rparr> of
               Some e \<Rightarrow> (md1, Inl e)
             | None \<Rightarrow> (md1, Inr True))))"

definition add_document_to_knowledge_base ::
  "deps \<Rightarrow> rag_state \<Rightarrow> string \<Rightarrow> metadata \<Rightarrow> string option \<Rightarrow> rag_state \<times> metadata \<times> bool" where
  "add_document_to_knowledge_base d st txt md doc_id =
     (let (st1, ready) =
            (if pinecone_index st = None then initialize_pinecone d st else (st, True)) in
      if \<not> ready then (st1, md, False)
      else case add_document_try d st1 txt md doc_id of
             (md', Inl e) \<Rightarrow> (st1, md', False)
           | (md', Inr b) \<Rightarrow> (st1, md', b))"

subsection \<open>Properties of the retrieval functions\<close>

lemma initialize_pinecone_True:
  "initialize_pinecone d st = (st', True) \<Longrightarrow> pinecone_index st' \<noteq> None"
  by (auto simp: initialize_pinecone_def initialize_pinecone_try_def Let_def
      split: if_splits option.splits sum.splits)

lemma initialize_pinecone_False:
  "initialize_pinecone d st = (st', False) \<Longrightarrow> pinecone_index st' = pinecone_index st"
  by (auto simp: initialize_pinecone_def initialize_pinecone_try_def Let_def
      split: if_splits option.splits sum.splits)

lemma query_pinecone_ready:
  "pinecone_index st = Some h \<Longrightarrow>
     query_pinecone d st q k f =
       (st, case query_pinecone_try d st q k f of Inl e \<Rightarrow> [] | Inr ds \<Rightarrow> ds)"
  by (simp add: query_pinecone_def split: sum.splits)

lemma query_pinecone_not_ready:
  "pinecone_index st = None \<Longrightarrow> \<not> snd (initialize_pinecone d st) \<Longrightarrow>
     query_pinecone d st q k f = (fst (initialize_pinecone d st), [])"
  by (cases "initialize_pinecone d st") (simp add: query_pinecone_def)

lemma query_pinecone_index:
  "pinecone_index st = Some h \<Longrightarrow> pinecone_index (fst (query_pinecone d st q k f)) = Some h"
  by (simp add: query_pinecone_ready)

lemma query_pinecone_no_embedding:
  "get_embedding d q = [] \<Longrightarrow> snd (query_pinecone d st q k f) = []"
  by (simp add: query_pinecone_def query_pinecone_try_def split: prod.splits)

lemma add_document_ready:
  "pinecone_index st = Some h \<Longrightarrow>
     add_document_to_knowledge_base d st txt md doc_id =
       (case add_document_try d st txt md doc_id of
          (md', Inl e) \<Rightarrow> (st, md', False)
        | (md', Inr b) \<Rightarrow> (st, md', b))"
  by (simp add: add_document_to_knowledge_base_def)

lemma add_document_not_ready:
  "pinecone_index st = None \<Longrightarrow> \<not> snd (initialize_pinecone d st) \<Longrightarrow>
     add_document_to_knowledge_base d st txt md doc_id = (fst (initialize_pinecone d st), md, False)"
  by (cases "initialize_pinecone d st") (simp add: add_document_to_knowledge_base_def)

lemma add_document_index:
  "pinecone_index st = Some h \<Longrightarrow>
     fst (add_document_to_knowledge_base d st txt md doc_id) = st"
  by (simp add: add_document_ready split: prod.splits sum.splits)

lemma get_tekisho_solutions_state:
  "fst (get_tekisho_solutions d st c i k) =
     fst (query_pinecone d st (fst (build_query c i)) k (snd (build_query c i)))"
  by (simp add: get_tekisho_solutions_def get_tekisho_solutions_try_def Let_def
      split: prod.splits sum.splits option.splits)

lemma get_tekisho_solutions_no_docs:
  "snd (query_pinecone d st (fst (build_query c i)) k (snd (build_query c i))) = [] \<Longrightarrow>
     snd (get_tekisho_solutions d st c i k) = Inr (generate_fallback_response c i)"
  by (auto simp: get_tekisho_solutions_def get_tekisho_solutions_try_def Let_def
      split: prod.splits)

lemma get_tekisho_solutions_raised:
  "snd (get_tekisho_solutions_try d st c i k) = Inl e \<Longrightarrow>
     snd (get_tekisho_solutions d st c i k) = Inr (generate_fallback_response c i)"
  by (auto simp: get_tekisho_solutions_def split: prod.splits sum.splits)

lemma get_tekisho_solutions_cases:
  "snd (get_tekisho_solutions d st c i k) = Inr (generate_fallback_response c i) \<or>
   (\<exists>oc ctx content.
      snd (query_pinecone d st (fst (build_query c i)) k (snd (build_query c i))) \<noteq> [] \<and>
      openai_client d = Some oc \<and>
      chat_create d oc system_prompt (user_prompt c i ctx) = Inr (Some content) \<and>
      snd (get_tekisho_solutions d st c i k) = Inr (strip content))"
  by (auto simp: get_tekisho_solutions_def get_tekisho_solutions_try_def Let_def
      split: prod.splits sum.splits option.splits)

lemma get_tekisho_solutions_chat_raises:
  assumes "\<And>oc sp up. \<exists>e. chat_create d oc sp up = Inl e"
  shows "snd (get_tekisho_solutions d st c i k) = Inr (generate_fallback_response c i)"
  using get_tekisho_solutions_cases [of d st c i k] assms by (metis Inl_Inr_False)

lemma query_pinecone_query_fails:
  assumes "\<And>ix p. \<exists>e. index_query d ix p = Inl e"
  shows "snd (query_pinecone d st q k f) = []"
proof -
  have "query_pinecone_try d st' q k f = Inr [] \<or> (\<exists>e. query_pinecone_try d st' q k f = Inl e)"
    for st'
  proof (cases "get_embedding d q = []")
    case True
    then show ?thesis by (simp add: query_pinecone_try_def)
  next
    case False
    show ?thesis
    proof (cases "pinecone_index st'")
      case None
      then show ?thesis using False by (simp add: query_pinecone_try_def Let_def)
    next
      case (Some ix)
      obtain e where "index_query d ix
          \<lparr>qp_vector = get_embedding d q, qp_top_k = k, qp_include_metadata = True,
           qp_filter = (case f of None \<Rightarrow> None | Some f \<Rightarrow> if f \<noteq> [] then Some f else None)\<rparr>
          = Inl e"
        using assms by blast
      then show ?thesis using False Some by (simp add: query_pinecone_try_def Let_def)
    qed
  qed
  note tr = this
  obtain st1 ready
    where r: "(if pinecone_index st = None then initialize_pinecone d st else (st, True)) = (st1, ready)"
    by (cases "if pinecone_index st = None then initialize_pinecone d st else (st, True)")
  have "query_pinecone d st q k f =
          (if \<not> ready then (st1, [])
           else case query_pinecone_try d st1 q k f of Inl e \<Rightarrow> (st1, []) | Inr ds \<Rightarrow> (st1, ds))"
    unfolding query_pinecone_def r by simp
  then show ?thesis using tr [of st1] by (auto split: sum.splits)
qed

subsection \<open>Two example environments\<close>

text \<open>
  \<open>demo_deps answer\<close>: every service is configured and reachable, the index holds
  one document, and the chat call returns or raises \<open>answer\<close>. \<open>offline_deps\<close>: no
  key is configured, so there is neither an OpenAI client nor a Pinecone client.
  \<open>fresh_state\<close> is the state of the globals when the module is loaded.
\<close>

definition demo_deps :: "exn + string option \<Rightarrow> deps" where
  "demo_deps answer =
     \<lparr>PINECONE_API_KEY = Some ''pc-key'',
      PINECONE_INDEX_NAME = ''tekisho-rag'',
      openai_client = Some 1,
      import_pinecone = None,
      new_Pinecone = (\<lambda>key. Inr 2),
      list_indexes = (\<lambda>c. Inr [''tekisho-rag'']),
      open_Index = (\<lambda>c name. Inr 3),
      embeddings_create = (\<lambda>oc txt. Inr [1]),
      index_query = (\<lambda>ix params.
        Inr (Some [\<lparr>m_id = PyStr ''doc-1'', m_score = PyNum 1,
                    m_metadata = Some [''text'' \<mapsto> PyStr ''Chatbots cut response times.'']\<rparr>])),
      index_upsert = (\<lambda>ix v. None),
      chat_create = (\<lambda>oc sp up. answer),
      uuid4 = ''00000000-0000-4000-8000-000000000000''\<rparr>"

definition offline_deps :: deps where
  "offline_deps =
     \<lparr>PINECONE_API_KEY = None,
      PINECONE_INDEX_NAME = ''tekisho-rag'',
      openai_client = None,
      import_pinecone = None,
      new_Pinecone = (\<lambda>key. Inl (ServiceError ''unreachable'')),
      list_indexes = (\<lambda>c. Inl (ServiceError ''unreachable'')),
      open_Index = (\<lambda>c name. Inl (ServiceError ''unreachable'')),
      embeddings_create = (\<lambda>oc txt. Inl (ServiceError ''unreachable'')),
      index_query = (\<lambda>ix params. Inl (ServiceError ''unreachable'')),
      index_upsert = (\<lambda>ix v. Some (ServiceError ''unreachable'')),
      chat_create = (\<lambda>oc sp up. Inl (ServiceError ''unreachable'')),
      uuid4 = ''00000000-0000-4000-8000-000000000000''\<rparr>"

definition fresh_state :: rag_state where
  "fresh_state = \<lparr>pinecone_client = None, pinecone_index = None\<rparr>"

text \<open>Python's \<open>sub in s\<close> on strings.\<close>

definition contains :: "string \<Rightarrow> string \<Rightarrow> bool" where
  "contains s sub = list_ex (\<lambda>t. take (length sub) t = sub) (tails s)"

lemma contains_middle: "contains (pre @ sub @ post) sub"
proof -
  have "sub @ post \<in> set (tails (pre @ sub @ post))" by (simp add: set_tails)
  moreover have "take (length sub) (sub @ post) = sub" by simp
  ultimately show ?thesis unfolding contains_def list_ex_iff by blast
qed

lemmas rag_eval =
  get_tekisho_solutions_def get_tekisho_solutions_try_def build_query_def truthy_def
  query_pinecone_def query_pinecone_try_def initialize_pinecone_def initialize_pinecone_try_def
  get_embedding_def format_context_from_documents_def py_join_def document_of_match_def
  add_document_to_knowledge_base_def add_document_try_def
  demo_deps_def offline_deps_def fresh_state_def strip_def is_space_def Let_def

lemma demo_ready:
  "initialize_pinecone (demo_deps a) fresh_state =
     (\<lparr>pinecone_client = Some 2, pinecone_index = Some 3\<rparr>, True)"
  by (simp add: rag_eval)

lemma demo_query:
  "snd (query_pinecone (demo_deps a) fresh_state q k f) =
     [\<lparr>d_id = PyStr ''doc-1'', d_score = PyNum 1,
       d_metadata = [''text'' \<mapsto> PyStr ''Chatbots cut response times.''],
       d_text = PyStr ''Chatbots cut response times.''\<rparr>]"
  by (simp add: rag_eval)

lemma str_nat_one: "str_nat (Suc 0) = ''1''"
  by (simp add: str_nat.simps [of "Suc 0"])

lemma demo_context:
  "format_context_from_documents
     [\<lparr>d_id = PyStr ''doc-1'', d_score = PyNum 1,
       d_metadata = [''text'' \<mapsto> PyStr ''Chatbots cut response times.''],
       d_text = PyStr ''Chatbots cut response times.''\<rparr>] =
   Inr (''[Document 1]'' @ nl @ ''Chatbots cut response times.'' @ nl)"
  by (simp add: format_context_from_documents_def py_join_def str_nat_one)

lemma demo_solution:
  "snd (get_tekisho_solutions (demo_deps (Inr (Some content))) fresh_state c i k) =
     Inr (strip content)"
proof -
  obtain st1 docs where q: "query_pinecone (demo_deps (Inr (Some content))) fresh_state
      (fst (build_query c i)) k (snd (build_query c i)) = (st1, docs)"
    by (cases "query_pinecone (demo_deps (Inr (Some content))) fresh_state
      (fst (build_query c i)) k (snd (build_query c i))")
  have docs: "docs = [\<lparr>d_id = PyStr ''doc-1'', d_score = PyNum 1,
       d_metadata = [''text'' \<mapsto> PyStr ''Chatbots cut response times.''],
       d_text = PyStr ''Chatbots cut response times.''\<rparr>]"
    using demo_query [of "Inr (Some content)" "fst (build_query c i)" k "snd (build_query c i)"] q
    by simp
  have oc: "openai_client (demo_deps (Inr (Some content))) = Some 1"
    and ch: "chat_create (demo_deps (Inr (Some content))) = (\<lambda>oc sp up. Inr (Some content))"
    by (simp_all add: demo_deps_def)
  show ?thesis
    unfolding get_tekisho_solutions_def get_tekisho_solutions_try_def
    by (simp add: case_prod_beta q docs demo_context oc ch del: list.simps)
qed

lemma demo_chat_fails:
  "snd (get_tekisho_solutions_try (demo_deps (Inl e)) fresh_state c i k) = Inl e"
proof -
  obtain st1 docs where q: "query_pinecone (demo_deps (Inl e)) fresh_state
      (fst (build_query c i)) k (snd (build_query c i)) = (st1, docs)"
    by (cases "query_pinecone (demo_deps (Inl e)) fresh_state
      (fst (build_query c i)) k (snd (build_query c i))")
  have docs: "docs = [\<lparr>d_id = PyStr ''doc-1'', d_score = PyNum 1,
       d_metadata = [''text'' \<mapsto> PyStr ''Chatbots cut response times.''],
       d_text = PyStr ''Chatbots cut response times.''\<rparr>]"
    using demo_query [of "Inl e" "fst (build_query c i)" k "snd (build_query c i)"] q
    by simp
  have oc: "openai_client (demo_deps (Inl e)) = Some 1"
    and ch: "chat_create (demo_deps (Inl e)) = (\<lambda>oc sp up. Inl e)"
    by (simp_all add: demo_deps_def)
  show ?thesis
    unfolding get_tekisho_solutions_try_def
    by (simp add: case_prod_beta q docs demo_context oc ch del: list.simps)
qed

lemma offline_not_ready: "initialize_pinecone offline_deps fresh_state = (fresh_state, False)"
  by (simp add: rag_eval)

subsection \<open>Sequences of calls and failed retrieval\<close>

text \<open>
  A call of one of the three public functions, each with the behaviour of the services
  during that call; \<open>run_calls\<close> threads the module globals through a sequence of
  calls. \<open>retrieval_failed\<close> names the two ways in which a call of
  \<open>get_tekisho_solutions\<close> ends without an answer of the language model: the query
  returned no document, or the \<open>try\<close> block raised.
\<close>

datatype rag_call =
    Query deps string int "(string \<times> string) list option"
  | AddDocument deps string metadata "string option"
  | Solutions deps string "string option" int

fun run_call :: "rag_state \<Rightarrow> rag_call \<Rightarrow> rag_state" where
  "run_call st (Query d q k f) = fst (query_pinecone d st q k f)"
| "run_call st (AddDocument d txt md doc_id) = fst (add_document_to_knowledge_base d st txt md doc_id)"
| "run_call st (Solutions d c i k) = fst (get_tekisho_solutions d st c i k)"

definition run_calls :: "rag_state \<Rightarrow> rag_call list \<Rightarrow> rag_state" where
  "run_calls st calls = foldl run_call st calls"

definition retrieval_failed :: "deps \<Rightarrow> rag_state \<Rightarrow> string \<Rightarrow> string option \<Rightarrow> int \<Rightarrow> bool" where
  "retrieval_failed d st c i k \<longleftrightarrow>
     snd (query_pinecone d st (fst (build_query c i)) k (snd (build_query c i))) = [] \<or>
     (\<exists>e. snd (get_tekisho_solutions_try d st c i k) = Inl e)"

lemma get_tekisho_solutions_ready:
  "pinecone_index st = Some h \<Longrightarrow> fst (get_tekisho_solutions d st c i k) = st"
  by (simp add: get_tekisho_solutions_state query_pinecone_ready)

lemma run_call_ready: "pinecone_index st = Some h \<Longrightarrow> run_call st call = st"
  by (cases call) (simp_all add: query_pinecone_ready add_document_index get_tekisho_solutions_ready)

lemma run_calls_ready: "pinecone_index st = Some h \<Longrightarrow> run_calls st calls = st"
  unfolding run_calls_def by (induction calls) (simp_all add: run_call_ready)

lemma retrieval_failed_fallback:
  "retrieval_failed d st c i k \<Longrightarrow>
     snd (get_tekisho_solutions d st c i k) = Inr (generate_fallback_response c i)"
  unfolding retrieval_failed_def
  using get_tekisho_solutions_no_docs get_tekisho_solutions_raised by blast

lemma chat_raises_retrieval_failed:
  assumes "\<And>oc sp up. \<exists>x. chat_create d oc sp up = Inl x"
  shows "retrieval_failed d st c i k"
proof -
  obtain st1 docs where q: "query_pinecone d st (fst (build_query c i)) k (snd (build_query c i))
      = (st1, docs)"
    by (cases "query_pinecone d st (fst (build_query c i)) k (snd (build_query c i))")
  show ?thesis
  proof (cases "docs = []")
    case True
    then show ?thesis using q by (simp add: retrieval_failed_def)
  next
    case False
    have "\<exists>e. snd (get_tekisho_solutions_try d st c i k) = Inl e"
    proof (cases "format_context_from_documents docs")
      case (Inl e)
      then show ?thesis
        using q False by (simp add: get_tekisho_solutions_try_def case_prod_beta)
    next
      case (Inr ctx)
      show ?thesis
      proof (cases "openai_client d")
        case None
        then show ?thesis
          using q False Inr by (simp add: get_tekisho_solutions_try_def case_prod_beta)
      next
        case (Some oc)
        obtain x where "chat_create d oc system_prompt (user_prompt c i ctx) = Inl x"
          using assms by blast
        then show ?thesis
          using q False Inr Some by (simp add: get_tekisho_solutions_try_def case_prod_beta)
      qed
    qed
    then show ?thesis by (simp add: retrieval_failed_def)
  qed
qed

section \<open>Claim C2: get\_tekisho\_solutions never raises\<close>

text \<open>
  Claim C2. Whatever the challenge, the industry and the behaviour of the external
  services, \<open>get_tekisho_solutions\<close> returns a string and raises nothing. An exception
  raised inside its \<open>try\<close> block is turned into the fallback string, and so is each
  listed failure: no embedding client, an embedding call that raises or returns the
  empty vector, an index that is missing and cannot be initialised, an index query
  that raises, a chat call that raises.
\<close>

theorem get_tekisho_solutions_never_raises:
  "(\<exists>answer. snd (get_tekisho_solutions d st c i k) = Inr answer) \<and>
   (snd (get_tekisho_solutions_try d st c i k) = Inl e \<longrightarrow>
      snd (get_tekisho_solutions d st c i k) = Inr (generate_fallback_response c i)) \<and>
   (openai_client d = None \<longrightarrow>
      snd (get_tekisho_solutions d st c i k) = Inr (generate_fallback_response c i)) \<and>
   ((\<forall>oc t. embeddings_create d oc t = Inr [] \<or> (\<exists>x. embeddings_create d oc t = Inl x)) \<longrightarrow>
      snd (get_tekisho_solutions d st c i k) = Inr (generate_fallback_response c i)) \<and>
   (pinecone_index st = None \<and> \<not> snd (initialize_pinecone d st) \<longrightarrow>
      snd (get_tekisho_solutions d st c i k) = Inr (generate_fallback_response c i)) \<and>
   ((\<forall>ix p. \<exists>x. index_query d ix p = Inl x) \<longrightarrow>
      snd (get_tekisho_solutions d st c i k) = Inr (generate_fallback_response c i)) \<and>
   ((\<forall>oc sp up. \<exists>x. chat_create d oc sp up = Inl x) \<longrightarrow>
      snd (get_tekisho_solutions d st c i k) = Inr (generate_fallback_response c i))"
proof -
  let ?r = "snd (get_tekisho_solutions d st c i k)"
  let ?fb = "Inr (generate_fallback_response c i) :: exn + string"
  let ?q = "fst (build_query c i)"
  let ?f = "snd (build_query c i)"
  have 1: "\<exists>answer. ?r = Inr answer"
    using get_tekisho_solutions_cases [of d st c i k] by blast
  have 2: "?r = ?fb" if "snd (get_tekisho_solutions_try d st c i k) = Inl e"
    using that by (rule get_tekisho_solutions_raised)
  have 3: "?r = ?fb" if "openai_client d = None"
  proof -
    have "get_embedding d ?q = []" using that by (simp add: get_embedding_def)
    then have "snd (query_pinecone d st ?q k ?f) = []" by (rule query_pinecone_no_embedding)
    then show ?thesis by (rule get_tekisho_solutions_no_docs)
  qed
  have 4: "?r = ?fb"
    if "\<forall>oc t. embeddings_create d oc t = Inr [] \<or> (\<exists>x. embeddings_create d oc t = Inl x)"
  proof -
    have "get_embedding d ?q = []"
    proof (cases "openai_client d")
      case None
      then show ?thesis by (simp add: get_embedding_def)
    next
      case (Some oc)
      from that have "embeddings_create d oc ?q = Inr [] \<or> (\<exists>x. embeddings_create d oc ?q = Inl x)"
        by blast
      then show ?thesis using Some by (auto simp: get_embedding_def)
    qed
    then have "snd (query_pinecone d st ?q k ?f) = []" by (rule query_pinecone_no_embedding)
    then show ?thesis by (rule get_tekisho_solutions_no_docs)
  qed
  have 5: "?r = ?fb" if "pinecone_index st = None \<and> \<not> snd (initialize_pinecone d st)"
  proof -
    have "snd (query_pinecone d st ?q k ?f) = []"
      using that by (simp add: query_pinecone_not_ready)
    then show ?thesis by (rule get_tekisho_solutions_no_docs)
  qed
  have 6: "?r = ?fb" if "\<forall>ix p. \<exists>x. index_query d ix p = Inl x"
  proof -
    have "snd (query_pinecone d st ?q k ?f) = []"
      using that by (intro query_pinecone_query_fails) blast
    then show ?thesis by (rule get_tekisho_solutions_no_docs)
  qed
  have 7: "?r = ?fb" if "\<forall>oc sp up. \<exists>x. chat_create d oc sp up = Inl x"
    using that by (intro get_tekisho_solutions_chat_raises) blast
  show ?thesis using 1 2 3 4 5 6 7 by blast
qed

theorem get_tekisho_solutions_never_raises_witness:
  "snd (get_tekisho_solutions_try (demo_deps (Inl (ServiceError ''timeout''))) fresh_state
          ''slow support'' (Some ''retail'') 5) = Inl (ServiceError ''timeout'') \<and>
   snd (get_tekisho_solutions (demo_deps (Inl (ServiceError ''timeout''))) fresh_state
          ''slow support'' (Some ''retail'') 5) =
     Inr (generate_fallback_response ''slow support'' (Some ''retail'')) \<and>
   openai_client offline_deps = None \<and>
   (\<forall>oc t. embeddings_create offline_deps oc t = Inr [] \<or>
            (\<exists>x. embeddings_create offline_deps oc t = Inl x)) \<and>
   pinecone_index fresh_state = None \<and> \<not> snd (initialize_pinecone offline_deps fresh_state) \<and>
   (\<forall>ix p. \<exists>x. index_query offline_deps ix p = Inl x) \<and>
   (\<forall>oc sp up. \<exists>x. chat_create offline_deps oc sp up = Inl x) \<and>
   snd (get_tekisho_solutions offline_deps fresh_state ''slow support'' None 5) =
     Inr (generate_fallback_response ''slow support'' None)"
proof -
  have a: "snd (get_tekisho_solutions_try (demo_deps (Inl (ServiceError ''timeout''))) fresh_state
          ''slow support'' (Some ''retail'') 5) = Inl (ServiceError ''timeout'')"
    by (rule demo_chat_fails)
  have b: "openai_client offline_deps = None"
    "\<forall>oc t. embeddings_create offline_deps oc t = Inr [] \<or>
            (\<exists>x. embeddings_create offline_deps oc t = Inl x)"
    "\<forall>ix p. \<exists>x. index_query offline_deps ix p = Inl x"
    "\<forall>oc sp up. \<exists>x. chat_create offline_deps oc sp up = Inl x"
    by (simp_all add: offline_deps_def)
  have c: "pinecone_index fresh_state = None \<and> \<not> snd (initialize_pinecone offline_deps fresh_state)"
    by (simp add: offline_not_ready) (simp add: fresh_state_def)
  show ?thesis
    using a b c
      get_tekisho_solutions_never_raises [of "demo_deps (Inl (ServiceError ''timeout''))"
        fresh_state "''slow support''" "Some ''retail''" 5 "ServiceError ''timeout''"]
      get_tekisho_solutions_never_raises [of offline_deps fresh_state "''slow support''" None 5]
    by blast
qed

section \<open>Claim C4: what the returned string contains\<close>

text \<open>
  Claim C4 as stated covers the path on which documents are retrieved and the language
  model answers; there it fails on the code, which returns the model's text, trimmed,
  whatever it says. With every service reachable and the answer "We can help." the
  result does not contain the challenge "slow support", and with an answer of one
  space the result is the empty string.
\<close>

theorem model_answer_counterexample:
  "''slow support'' \<noteq> [] \<and>
   snd (get_tekisho_solutions (demo_deps (Inr (Some ''We can help.''))) fresh_state
          ''slow support'' None 5) = Inr ''We can help.'' \<and>
   \<not> contains ''We can help.'' ''slow support'' \<and>
   snd (get_tekisho_solutions (demo_deps (Inr (Some '' ''))) fresh_state
          ''slow support'' None 5) = Inr []"
proof -
  have 1: "strip ''We can help.'' = ''We can help.''" "strip '' '' = []"
    by (simp_all add: strip_def is_space_def)
  have 2: "\<not> contains ''We can help.'' ''slow support''"
    by (simp add: contains_def)
  show ?thesis using 1 2 by (simp add: demo_solution)
qed

text \<open>
  Claim C4, amended. The returned string is either the fallback or the trimmed text of
  the language model, the latter only when documents were retrieved and the model call
  returned. Whenever retrieval gives no document or the \<open>try\<close> block raises, also
  with every service unreachable, the result is the fallback string, which is not
  empty, contains the literal challenge text and, when a non-empty industry is given,
  the literal industry text.
\<close>

theorem fallback_contains_challenge:
  "(snd (get_tekisho_solutions d st c i k) = Inr (generate_fallback_response c i) \<or>
    (\<exists>oc ctx content.
       snd (query_pinecone d st (fst (build_query c i)) k (snd (build_query c i))) \<noteq> [] \<and>
       openai_client d = Some oc \<and>
       chat_create d oc system_prompt (user_prompt c i ctx) = Inr (Some content) \<and>
       snd (get_tekisho_solutions d st c i k) = Inr (strip content))) \<and>
   (snd (query_pinecone d st (fst (build_query c i)) k (snd (build_query c i))) = [] \<or>
    snd (get_tekisho_solutions_try d st c i k) = Inl e \<longrightarrow>
      (\<exists>r. snd (get_tekisho_solutions d st c i k) = Inr r \<and> r \<noteq> [] \<and> contains r c \<and>
           (truthy i \<longrightarrow> contains r (the i))))"
proof -
  let ?fb = "generate_fallback_response c i"
  have ne: "?fb \<noteq> []"
    by (simp add: generate_fallback_response_def Let_def)
  have cc: "contains ?fb c"
  proof -
    have "\<exists>post. ?fb = ''I understand you're facing challenges with '' @ c @ post"
      by (simp add: generate_fallback_response_def Let_def)
    then show ?thesis using contains_middle by metis
  qed
  have ci: "contains ?fb (the i)" if "truthy i"
  proof -
    have "?fb = (''I understand you're facing challenges with '' @ c @ ''. '' @
        ''For businesses in the '') @ the i @ ('' industry, '' @ fallback_closing)"
      using that by (simp add: generate_fallback_response_def Let_def)
    then show ?thesis using contains_middle by metis
  qed
  have fb: "snd (get_tekisho_solutions d st c i k) = Inr ?fb"
    if "snd (query_pinecone d st (fst (build_query c i)) k (snd (build_query c i))) = [] \<or>
        snd (get_tekisho_solutions_try d st c i k) = Inl e"
    using that get_tekisho_solutions_no_docs get_tekisho_solutions_raised by blast
  show ?thesis
    using get_tekisho_solutions_cases [of d st c i k] ne cc ci fb by blast
qed

theorem fallback_contains_challenge_witness:
  "snd (query_pinecone offline_deps fresh_state
          (fst (build_query ''slow support'' (Some ''retail''))) 5
          (snd (build_query ''slow support'' (Some ''retail'')))) = [] \<and>
   truthy (Some ''retail'') \<and>
   (\<exists>r. snd (get_tekisho_solutions offline_deps fresh_state ''slow support'' (Some ''retail'') 5)
          = Inr r \<and> r \<noteq> [] \<and> contains r ''slow support'' \<and> contains r ''retail'')"
proof -
  have q: "snd (query_pinecone offline_deps fresh_state
          (fst (build_query ''slow support'' (Some ''retail''))) 5
          (snd (build_query ''slow support'' (Some ''retail'')))) = []"
  proof -
    have n: "pinecone_index fresh_state = None" by (simp add: fresh_state_def)
    have f: "\<not> snd (initialize_pinecone offline_deps fresh_state)"
      by (simp add: offline_not_ready)
    show ?thesis using query_pinecone_not_ready [OF n f] by simp
  qed
  have t: "truthy (Some ''retail'')" by (simp add: truthy_def)
  show ?thesis
    using q t
      fallback_contains_challenge [of offline_deps fresh_state "''slow support''"
        "Some ''retail''" 5]
    by auto
qed

section \<open>Claim C6: the fallback text\<close>

text \<open>
  Claim C6. When the query gives no document or the \<open>try\<close> block raises, in
  particular when the call of the language model raises, \<open>get_tekisho_solutions\<close>
  returns exactly the template: the opening sentence with the challenge, then the
  industry clause only for a given, non-empty industry, then the fixed closing
  paragraph. Two failing calls for the same challenge and industry return the same
  text, whichever service failed.
\<close>

theorem fallback_template:
  "generate_fallback_response c i =
     ''I understand you're facing challenges with '' @ c @ ''. '' @
     (if truthy i then ''For businesses in the '' @ the i @ '' industry, '' else []) @
     fallback_closing \<and>
   fallback_closing =
     ''Tekisho's AI solutions typically deliver significant results. Our clients see ROI ranging from 150 to 300 percent within 6 to 12 weeks. Common benefits include cost savings of 25 to 40 percent and productivity improvements of 50 to 80 percent. I'd be happy to connect you with our solution architects who can provide specific recommendations tailored to your needs. Would that be helpful?'' \<and>
   (retrieval_failed d st c i k \<longrightarrow>
      snd (get_tekisho_solutions d st c i k) = Inr (generate_fallback_response c i)) \<and>
   ((\<forall>oc sp up. \<exists>x. chat_create d oc sp up = Inl x) \<longrightarrow> retrieval_failed d st c i k) \<and>
   (retrieval_failed d st c i k \<and> retrieval_failed d' st' c i k' \<longrightarrow>
      snd (get_tekisho_solutions d st c i k) = snd (get_tekisho_solutions d' st' c i k'))"
proof -
  have 1: "generate_fallback_response c i =
     ''I understand you're facing challenges with '' @ c @ ''. '' @
     (if truthy i then ''For businesses in the '' @ the i @ '' industry, '' else []) @
     fallback_closing"
    by (simp add: generate_fallback_response_def Let_def)
  have 2: "fallback_closing =
     ''Tekisho's AI solutions typically deliver significant results. Our clients see ROI ranging from 150 to 300 percent within 6 to 12 weeks. Common benefits include cost savings of 25 to 40 percent and productivity improvements of 50 to 80 percent. I'd be happy to connect you with our solution architects who can provide specific recommendations tailored to your needs. Would that be helpful?''"
    by (simp add: fallback_closing_def)
  have 3: "retrieval_failed d st c i k" if "\<forall>oc sp up. \<exists>x. chat_create d oc sp up = Inl x"
    using that by (intro chat_raises_retrieval_failed) blast
  show ?thesis
    using 1 2 3 retrieval_failed_fallback [of d st c i k] retrieval_failed_fallback [of d' st' c i k']
    by simp
qed

theorem fallback_template_witness:
  "retrieval_failed offline_deps fresh_state ''slow support'' (Some ''retail'') 5 \<and>
   (\<forall>oc sp up. \<exists>x. chat_create (demo_deps (Inl (ServiceError ''timeout''))) oc sp up = Inl x) \<and>
   retrieval_failed (demo_deps (Inl (ServiceError ''timeout'')))
     \<lparr>pinecone_client = Some 2, pinecone_index = Some 3\<rparr> ''slow support'' (Some ''retail'') 3 \<and>
   snd (get_tekisho_solutions offline_deps fresh_state ''slow support'' (Some ''retail'') 5) =
     snd (get_tekisho_solutions (demo_deps (Inl (ServiceError ''timeout'')))
            \<lparr>pinecone_client = Some 2, pinecone_index = Some 3\<rparr> ''slow support'' (Some ''retail'') 3) \<and>
   snd (get_tekisho_solutions offline_deps fresh_state ''slow support'' (Some ''retail'') 5) =
     Inr (''I understand you're facing challenges with slow support. '' @
          ''For businesses in the retail industry, '' @ fallback_closing)"
proof -
  have n: "pinecone_index fresh_state = None" by (simp add: fresh_state_def)
  have f: "\<not> snd (initialize_pinecone offline_deps fresh_state)"
    by (simp add: offline_not_ready)
  have a: "retrieval_failed offline_deps fresh_state ''slow support'' (Some ''retail'') 5"
    using query_pinecone_not_ready [OF n f] by (simp add: retrieval_failed_def)
  have b: "\<forall>oc sp up. \<exists>x. chat_create (demo_deps (Inl (ServiceError ''timeout''))) oc sp up = Inl x"
    by (simp add: demo_deps_def)
  have v: "generate_fallback_response ''slow support'' (Some ''retail'') =
      ''I understand you're facing challenges with slow support. '' @
      ''For businesses in the retail industry, '' @ fallback_closing"
    by (simp add: generate_fallback_response_def truthy_def)
  show ?thesis
    using a b v
      fallback_template [of "''slow support''" "Some ''retail''" offline_deps fresh_state 5
        "demo_deps (Inl (ServiceError ''timeout''))"
        "\<lparr>pinecone_client = Some 2, pinecone_index = Some 3\<rparr>" 3]
      fallback_template [of "''slow support''" "Some ''retail''"
        "demo_deps (Inl (ServiceError ''timeout''))"
        "\<lparr>pinecone_client = Some 2, pinecone_index = Some 3\<rparr>" 3
        offline_deps fresh_state 5]
    by metis
qed

section \<open>Claim C8: the index handle\<close>

text \<open>
  Claim C8. Once the index global is set, a call of the query, the add-document or the
  solutions function leaves both globals as they are, over any sequence of calls, and
  its result does not depend on the configuration and the services that
  \<open>initialize_pinecone\<close> uses: initialisation is not attempted, and the query and
  the upsert go to the index that the global holds. Initialisation is
  attempted when the global is unset; when it succeeds the global is set, and when it
  fails the global stays unset, the query returns no document and add-document
  returns \<open>False\<close>.
\<close>

theorem index_handle_created_once:
  "(pinecone_index st = Some h \<longrightarrow>
      fst (query_pinecone d st q k f) = st \<and>
      fst (add_document_to_knowledge_base d st txt md doc_id) = st \<and>
      fst (get_tekisho_solutions d st c i k) = st \<and>
      run_calls st calls = st \<and>
      query_pinecone (d\<lparr>PINECONE_API_KEY := key, import_pinecone := imp, new_Pinecone := np,
                         list_indexes := li, open_Index := oi\<rparr>) st q k f =
        query_pinecone d st q k f \<and>
      add_document_to_knowledge_base
        (d\<lparr>PINECONE_API_KEY := key, import_pinecone := imp, new_Pinecone := np,
            list_indexes := li, open_Index := oi\<rparr>) st txt md doc_id =
        add_document_to_knowledge_base d st txt md doc_id \<and>
      (get_embedding d q \<noteq> [] \<longrightarrow>
         snd (query_pinecone d st q k f) =
           (case index_query d h
                   \<lparr>qp_vector = get_embedding d q, qp_top_k = k, qp_include_metadata = True,
                    qp_filter = (case f of None \<Rightarrow> None
                                 | Some x \<Rightarrow> if x \<noteq> [] then Some x else None)\<rparr> of
              Inl e \<Rightarrow> []
            | Inr results \<Rightarrow>
               map document_of_match (case results of None \<Rightarrow> [] | Some ms \<Rightarrow> ms))) \<and>
      (get_embedding d txt \<noteq> [] \<longrightarrow>
         snd (snd (add_document_to_knowledge_base d st txt md doc_id)) =
           (index_upsert d h
              \<lparr>uv_id = (if truthy doc_id then the doc_id else uuid4 d),
               uv_values = get_embedding d txt,
               uv_metadata = md(''text'' \<mapsto> PyStr txt)\<rparr> = None))) \<and>
   (pinecone_index st = None \<and> snd (initialize_pinecone d st) \<longrightarrow>
      pinecone_index (fst (query_pinecone d st q k f)) \<noteq> None \<and>
      pinecone_index (fst (add_document_to_knowledge_base d st txt md doc_id)) \<noteq> None) \<and>
   (pinecone_index st = None \<and> \<not> snd (initialize_pinecone d st) \<longrightarrow>
      query_pinecone d st q k f = (fst (initialize_pinecone d st), []) \<and>
      add_document_to_knowledge_base d st txt md doc_id =
        (fst (initialize_pinecone d st), md, False) \<and>
      pinecone_index (fst (initialize_pinecone d st)) = None)"
proof -
  let ?d' = "d\<lparr>PINECONE_API_KEY := key, import_pinecone := imp, new_Pinecone := np,
               list_indexes := li, open_Index := oi\<rparr>"
  have set: "fst (query_pinecone d st q k f) = st \<and>
      fst (add_document_to_knowledge_base d st txt md doc_id) = st \<and>
      fst (get_tekisho_solutions d st c i k) = st \<and>
      run_calls st calls = st \<and>
      query_pinecone ?d' st q k f = query_pinecone d st q k f \<and>
      add_document_to_knowledge_base ?d' st txt md doc_id =
        add_document_to_knowledge_base d st txt md doc_id \<and>
      (get_embedding d q \<noteq> [] \<longrightarrow>
         snd (query_pinecone d st q k f) =
           (case index_query d h
                   \<lparr>qp_vector = get_embedding d q, qp_top_k = k, qp_include_metadata = True,
                    qp_filter = (case f of None \<Rightarrow> None
                                 | Some x \<Rightarrow> if x \<noteq> [] then Some x else None)\<rparr> of
              Inl e \<Rightarrow> []
            | Inr results \<Rightarrow>
               map document_of_match (case results of None \<Rightarrow> [] | Some ms \<Rightarrow> ms))) \<and>
      (get_embedding d txt \<noteq> [] \<longrightarrow>
         snd (snd (add_document_to_knowledge_base d st txt md doc_id)) =
           (index_upsert d h
              \<lparr>uv_id = (if truthy doc_id then the doc_id else uuid4 d),
               uv_values = get_embedding d txt,
               uv_metadata = md(''text'' \<mapsto> PyStr txt)\<rparr> = None))"
    if h: "pinecone_index st = Some h"
  proof -
    have s: "openai_client ?d' = openai_client d" "embeddings_create ?d' = embeddings_create d"
      "index_query ?d' = index_query d" "index_upsert ?d' = index_upsert d" "uuid4 ?d' = uuid4 d"
      by simp_all
    have e: "get_embedding ?d' = get_embedding d"
      unfolding get_embedding_def s by (rule refl)
    have "query_pinecone_try ?d' st q k f = query_pinecone_try d st q k f"
      unfolding query_pinecone_try_def e s by (rule refl)
    then have 1: "query_pinecone ?d' st q k f = query_pinecone d st q k f"
      using h by (simp add: query_pinecone_ready)
    have "add_document_try ?d' st txt md doc_id = add_document_try d st txt md doc_id"
      unfolding add_document_try_def e s by (rule refl)
    then have 2: "add_document_to_knowledge_base ?d' st txt md doc_id =
        add_document_to_knowledge_base d st txt md doc_id"
      using h by (simp add: add_document_ready)
    have 3: "snd (query_pinecone d st q k f) =
           (case index_query d h
                   \<lparr>qp_vector = get_embedding d q, qp_top_k = k, qp_include_metadata = True,
                    qp_filter = (case f of None \<Rightarrow> None
                                 | Some x \<Rightarrow> if x \<noteq> [] then Some x else None)\<rparr> of
              Inl e \<Rightarrow> []
            | Inr results \<Rightarrow>
               map document_of_match (case results of None \<Rightarrow> [] | Some ms \<Rightarrow> ms))"
      if "get_embedding d q \<noteq> []"
      using h that
      by (simp add: query_pinecone_ready query_pinecone_try_def Let_def split: sum.splits)
    have 4: "snd (snd (add_document_to_knowledge_base d st txt md doc_id)) =
           (index_upsert d h
              \<lparr>uv_id = (if truthy doc_id then the doc_id else uuid4 d),
               uv_values = get_embedding d txt,
               uv_metadata = md(''text'' \<mapsto> PyStr txt)\<rparr> = None)"
      if "get_embedding d txt \<noteq> []"
      using h that
      by (simp add: add_document_ready add_document_try_def Let_def split: option.splits)
    have 5: "fst (query_pinecone d st q k f) = st \<and>
      fst (add_document_to_knowledge_base d st txt md doc_id) = st \<and>
      fst (get_tekisho_solutions d st c i k) = st \<and>
      run_calls st calls = st"
      using h
      by (simp add: query_pinecone_ready add_document_index get_tekisho_solutions_ready
          run_calls_ready)
    show ?thesis using 1 2 3 4 5 by blast
  qed
  have made: "pinecone_index (fst (query_pinecone d st q k f)) \<noteq> None \<and>
      pinecone_index (fst (add_document_to_knowledge_base d st txt md doc_id)) \<noteq> None"
    if "pinecone_index st = None \<and> snd (initialize_pinecone d st)"
  proof -
    obtain st1 b where i0: "initialize_pinecone d st = (st1, b)"
      by (cases "initialize_pinecone d st")
    have i: "initialize_pinecone d st = (st1, True)" using that i0 by simp
    have "pinecone_index st1 \<noteq> None" using i by (rule initialize_pinecone_True)
    then show ?thesis
      using that i
      by (auto simp: query_pinecone_def add_document_to_knowledge_base_def
          split: sum.splits prod.splits)
  qed
  have failed: "query_pinecone d st q k f = (fst (initialize_pinecone d st), []) \<and>
      add_document_to_knowledge_base d st txt md doc_id =
        (fst (initialize_pinecone d st), md, False) \<and>
      pinecone_index (fst (initialize_pinecone d st)) = None"
    if "pinecone_index st = None \<and> \<not> snd (initialize_pinecone d st)"
  proof -
    obtain st1 b where i0: "initialize_pinecone d st = (st1, b)"
      by (cases "initialize_pinecone d st")
    have i: "initialize_pinecone d st = (st1, False)" using that i0 by simp
    have "pinecone_index st1 = None"
      using initialize_pinecone_False [OF i] that by simp
    then show ?thesis
      using that i by (simp add: query_pinecone_not_ready add_document_not_ready)
  qed
  show ?thesis using set made failed by blast
qed

theorem index_handle_created_once_witness:
  "pinecone_index \<lparr>pinecone_client = Some 2, pinecone_index = Some 3\<rparr> = Some 3 \<and>
   run_calls \<lparr>pinecone_client = Some 2, pinecone_index = Some 3\<rparr>
     [Query offline_deps ''slow support'' 5 None,
      AddDocument (demo_deps (Inr None)) ''new text'' Map.empty None,
      Solutions (demo_deps (Inr (Some ''We can help.''))) ''slow support'' None 5] =
     \<lparr>pinecone_client = Some 2, pinecone_index = Some 3\<rparr> \<and>
   pinecone_index fresh_state = None \<and>
   snd (initialize_pinecone (demo_deps (Inr None)) fresh_state) \<and>
   pinecone_index (fst (query_pinecone (demo_deps (Inr None)) fresh_state ''slow support'' 5 None))
     \<noteq> None \<and>
   \<not> snd (initialize_pinecone offline_deps fresh_state) \<and>
   query_pinecone offline_deps fresh_state ''slow support'' 5 None = (fresh_state, []) \<and>
   add_document_to_knowledge_base offline_deps fresh_state ''new text'' Map.empty None =
     (fresh_state, Map.empty, False)"
proof -
  have a: "pinecone_index \<lparr>pinecone_client = Some 2, pinecone_index = Some 3\<rparr> = Some 3"
    by simp
  have b: "pinecone_index fresh_state = None" by (simp add: fresh_state_def)
  have c: "snd (initialize_pinecone (demo_deps (Inr None)) fresh_state)"
    by (simp add: demo_ready)
  have e: "\<not> snd (initialize_pinecone offline_deps fresh_state)"
    "fst (initialize_pinecone offline_deps fresh_state) = fresh_state"
    by (simp_all add: offline_not_ready)
  show ?thesis
    using a b c e
      index_handle_created_once [where st = "\<lparr>pinecone_client = Some 2, pinecone_index = Some 3\<rparr>"
        and h = "3" and calls = "[Query offline_deps ''slow support'' 5 None,
          AddDocument (demo_deps (Inr None)) ''new text'' Map.empty None,
          Solutions (demo_deps (Inr (Some ''We can help.''))) ''slow support'' None 5]"]
      index_handle_created_once [where st = "fresh_state" and d = "demo_deps (Inr None)"
        and q = "''slow support''" and k = "5" and f = "None"]
      index_handle_created_once [where st = "fresh_state" and d = "offline_deps"
        and q = "''slow support''" and k = "5" and f = "None"]
    by simp
qed

section \<open>Claim C9: add\_document\_to\_knowledge\_base and the caller's metadata\<close>

text \<open>
  Claim C9. When the index is available (already set, or initialised by the call) and
  the embedding is not empty, the caller's metadata dictionary gets the document text
  under the key "text", replacing an entry that was there; this holds whatever the
  upsert does, also when the upsert raises and the function returns \<open>False\<close>. When
  the index cannot be initialised or the embedding is empty, the function returns
  \<open>False\<close> and the dictionary is unchanged.
\<close>

theorem add_document_mutates_metadata:
  "(((\<exists>h. pinecone_index st = Some h) \<or> snd (initialize_pinecone d st)) \<and>
      get_embedding d txt \<noteq> [] \<longrightarrow>
        fst (snd (add_document_to_knowledge_base d st txt md doc_id)) =
          md(''text'' \<mapsto> PyStr txt)) \<and>
   (((\<exists>h. pinecone_index st = Some h) \<or> snd (initialize_pinecone d st)) \<and>
      get_embedding d txt \<noteq> [] \<and> (\<forall>ix v. \<exists>x. index_upsert d ix v = Some x) \<longrightarrow>
        snd (add_document_to_knowledge_base d st txt md doc_id) =
          (md(''text'' \<mapsto> PyStr txt), False)) \<and>
   ((pinecone_index st = None \<and> \<not> snd (initialize_pinecone d st)) \<or>
      get_embedding d txt = [] \<longrightarrow>
        snd (add_document_to_knowledge_base d st txt md doc_id) = (md, False))"
proof -
  obtain st1 ready
    where r: "(if pinecone_index st = None then initialize_pinecone d st else (st, True)) = (st1, ready)"
    by (cases "if pinecone_index st = None then initialize_pinecone d st else (st, True)")
  have add: "add_document_to_knowledge_base d st txt md doc_id =
      (if \<not> ready then (st1, md, False)
       else case add_document_try d st1 txt md doc_id of
              (md', Inl e) \<Rightarrow> (st1, md', False)
            | (md', Inr b) \<Rightarrow> (st1, md', b))"
    unfolding add_document_to_knowledge_base_def r by simp
  have rd: "ready \<longleftrightarrow> (\<exists>h. pinecone_index st = Some h) \<or> snd (initialize_pinecone d st)"
    using r by (auto split: if_splits)
  have 1: "fst (snd (add_document_to_knowledge_base d st txt md doc_id)) =
      md(''text'' \<mapsto> PyStr txt)"
    if "ready" "get_embedding d txt \<noteq> []"
    using that
    by (auto simp: add add_document_try_def Let_def split: option.splits)
  have 2: "snd (add_document_to_knowledge_base d st txt md doc_id) =
      (md(''text'' \<mapsto> PyStr txt), False)"
    if a: "ready" "get_embedding d txt \<noteq> []"
      and u: "\<forall>ix v. \<exists>x. index_upsert d ix v = Some x"
  proof (cases "pinecone_index st1")
    case None
    then show ?thesis
      using a by (simp add: add add_document_try_def Let_def)
  next
    case (Some ix)
    obtain x where "index_upsert d ix
        \<lparr>uv_id = (if truthy doc_id then the doc_id else uuid4 d),
         uv_values = get_embedding d txt, uv_metadata = md(''text'' \<mapsto> PyStr txt)\<rparr> = Some x"
      using u by blast
    then show ?thesis
      using a Some by (simp add: add add_document_try_def Let_def)
  qed
  have 3: "snd (add_document_to_knowledge_base d st txt md doc_id) = (md, False)"
    if "\<not> ready \<or> get_embedding d txt = []"
    using that by (auto simp: add add_document_try_def)
  have nr: "\<not> ready" if "pinecone_index st = None \<and> \<not> snd (initialize_pinecone d st)"
    using that rd by simp
  show ?thesis using 1 2 3 rd nr by blast
qed

theorem add_document_mutates_metadata_witness:
  "(\<exists>h. pinecone_index \<lparr>pinecone_client = Some 2, pinecone_index = Some 3\<rparr> = Some h) \<and>
   get_embedding (demo_deps (Inr None)\<lparr>index_upsert := \<lambda>ix v. Some (ServiceError ''read only'')\<rparr>)
     ''new text'' \<noteq> [] \<and>
   (\<forall>ix v. \<exists>x. index_upsert
      (demo_deps (Inr None)\<lparr>index_upsert := \<lambda>ix v. Some (ServiceError ''read only'')\<rparr>) ix v = Some x) \<and>
   snd (add_document_to_knowledge_base
          (demo_deps (Inr None)\<lparr>index_upsert := \<lambda>ix v. Some (ServiceError ''read only'')\<rparr>)
          \<lparr>pinecone_client = Some 2, pinecone_index = Some 3\<rparr> ''new text''
          [''text'' \<mapsto> PyStr ''old text''] None) =
     ([''text'' \<mapsto> PyStr ''new text''], False) \<and>
   pinecone_index fresh_state = None \<and> \<not> snd (initialize_pinecone offline_deps fresh_state) \<and>
   snd (add_document_to_knowledge_base offline_deps fresh_state ''new text''
          [''text'' \<mapsto> PyStr ''old text''] None) =
     ([''text'' \<mapsto> PyStr ''old text''], False)"
proof -
  let ?d = "demo_deps (Inr None)\<lparr>index_upsert := \<lambda>ix v. Some (ServiceError ''read only'')\<rparr>"
  let ?st = "\<lparr>pinecone_client = Some 2, pinecone_index = Some 3\<rparr>"
  have a: "\<exists>h. pinecone_index ?st = Some h" by simp
  have b: "get_embedding ?d ''new text'' \<noteq> []"
    by (simp add: get_embedding_def demo_deps_def)
  have c: "\<forall>ix v. \<exists>x. index_upsert ?d ix v = Some x" by simp
  have e: "pinecone_index fresh_state = None" by (simp add: fresh_state_def)
  have f: "\<not> snd (initialize_pinecone offline_deps fresh_state)"
    by (simp add: offline_not_ready)
  have m: "[''text'' \<mapsto> PyStr ''old text''](''text'' \<mapsto> PyStr ''new text'') =
      [''text'' \<mapsto> PyStr ''new text'']" by simp
  show ?thesis
    using a b c e f m
      add_document_mutates_metadata [of ?st ?d "''new text''" "[''text'' \<mapsto> PyStr ''old text'']" None]
      add_document_mutates_metadata [of fresh_state offline_deps "''new text''"
        "[''text'' \<mapsto> PyStr ''old text'']" None]
    by simp
qed

section \<open>Claim C10: an empty industry\<close>

text \<open>
  Claim C10. With the empty string as industry, \<open>get_tekisho_solutions\<close> behaves as
  with no industry: the query text is the challenge itself, no filter is attached, the
  prompt has no industry line, the fallback has no industry clause, and the result and
  the state are those of the call with \<open>None\<close>.
\<close>

theorem empty_industry_is_absent:
  "build_query c (Some []) = (c, None) \<and>
   build_query c None = (c, None) \<and>
   user_prompt c (Some []) ctx = user_prompt c None ctx \<and>
   generate_fallback_response c (Some []) =
     ''I understand you're facing challenges with '' @ c @ ''. '' @ fallback_closing \<and>
   generate_fallback_response c (Some []) = generate_fallback_response c None \<and>
   get_tekisho_solutions d st c (Some []) k = get_tekisho_solutions d st c None k"
proof -
  have b: "build_query c (Some []) = (c, None)" "build_query c None = (c, None)"
    by (simp_all add: build_query_def truthy_def)
  have u: "user_prompt c (Some []) = user_prompt c None"
    by (simp add: user_prompt_def truthy_def fun_eq_iff)
  have g: "generate_fallback_response c (Some []) = generate_fallback_response c None"
    by (simp add: generate_fallback_response_def truthy_def)
  have g': "generate_fallback_response c (Some []) =
     ''I understand you're facing challenges with '' @ c @ ''. '' @ fallback_closing"
    by (simp add: generate_fallback_response_def truthy_def)
  have t: "get_tekisho_solutions_try d st c (Some []) k = get_tekisho_solutions_try d st c None k"
    unfolding get_tekisho_solutions_try_def b u g by (rule refl)
  have s: "get_tekisho_solutions d st c (Some []) k = get_tekisho_solutions d st c None k"
    unfolding get_tekisho_solutions_def t g by (rule refl)
  show ?thesis using b u g g' s by simp
qed

theorem empty_industry_is_absent_witness:
  "build_query ''slow support'' (Some []) = (''slow support'', None) \<and>
   get_tekisho_solutions offline_deps fresh_state ''slow support'' (Some []) 5 =
     get_tekisho_solutions offline_deps fresh_state ''slow support'' None 5 \<and>
   snd (get_tekisho_solutions offline_deps fresh_state ''slow support'' None 5) =
     Inr (''I understand you're facing challenges with slow support. '' @ fallback_closing)"
proof -
  have n: "pinecone_index fresh_state = None" by (simp add: fresh_state_def)
  have f: "\<not> snd (initialize_pinecone offline_deps fresh_state)"
    by (simp add: offline_not_ready)
  have "snd (query_pinecone offline_deps fresh_state (fst (build_query ''slow support'' None)) 5
      (snd (build_query ''slow support'' None))) = []"
    using query_pinecone_not_ready [OF n f] by simp
  then have v: "snd (get_tekisho_solutions offline_deps fresh_state ''slow support'' None 5) =
      Inr (generate_fallback_response ''slow support'' None)"
    by (rule get_tekisho_solutions_no_docs)
  have g: "generate_fallback_response ''slow support'' None =
      ''I understand you're facing challenges with slow support. '' @ fallback_closing"
    by (simp add: generate_fallback_response_def truthy_def)
  have A: "build_query ''slow support'' (Some []) = (''slow support'', None) \<and>
      get_tekisho_solutions offline_deps fresh_state ''slow support'' (Some []) 5 =
      get_tekisho_solutions offline_deps fresh_state ''slow support'' None 5"
    using empty_industry_is_absent [where c = "''slow support''" and d = "offline_deps"
        and st = "fresh_state" and k = "5"]
    by blast
  have B: "snd (get_tekisho_solutions offline_deps fresh_state ''slow support'' None 5) =
     Inr (''I understand you're facing challenges with slow support. '' @ fallback_closing)"
    unfolding v g by (rule refl)
  from A B show ?thesis by blast
qed

end
